theory Spec2Isabelle
  imports Main
begin

section \<open>Outcomes of a call\<close>

text \<open>
  A Go call either returns a value or panics (a nil pointer dereference in this
  development). A returned \<open>error\<close> is \<open>None\<close> for Go's \<open>nil\<close> and \<open>Some e\<close> otherwise.
\<close>

datatype 'a outcome = Panics | Returns 'a

section \<open>Schema (schema.go)\<close>

text \<open>
  Modelled from the spec: the interface declarations \<open>Indexer\<close>, \<open>SingleIndexer\<close> and
  \<open>MultiIndexer\<close> are not among the sources. An \<open>Indexer\<close> is an interface value: it is
  either nil, or it holds a value whose dynamic type implements \<open>SingleIndexer\<close>
  (first flag), \<open>MultiIndexer\<close> (second flag), both or neither. This is all that the
  type assertions and the type switch of \<open>Validate\<close> observe.
\<close>

datatype Indexer = NilIndexer | IndexerValue bool bool

text \<open>The \<open>ok\<close> of the type assertion \<open>x.(SingleIndexer)\<close>; false on a nil interface.\<close>

fun isSingleIndexer :: "Indexer \<Rightarrow> bool" where
  "isSingleIndexer NilIndexer = False"
| "isSingleIndexer (IndexerValue single multi) = single"

fun isMultiIndexer :: "Indexer \<Rightarrow> bool" where
  "isMultiIndexer NilIndexer = False"
| "isMultiIndexer (IndexerValue single multi) = multi"

record IndexSchema =
  Index_Name :: string
  AllowMissing :: bool
  Unique :: bool
  Indexer :: Indexer

text \<open>
  A Go map is an association list: the order of the list is the order in which
  \<open>range\<close> happens to visit the entries, \<open>map_of\<close> is the lookup and the empty list
  is the map of length 0 (nil or empty). A value of the map is a pointer, \<open>None\<close> when
  it is nil.
\<close>

record TableSchema =
  Table_Name :: string
  Indexes :: "(string \<times> IndexSchema option) list"

record DBSchema =
  Tables :: "(string \<times> TableSchema option) list"

text \<open>
  The errors built by \<open>fmt.Errorf\<close>, one constructor for each format string, with the
  arguments of the format.
\<close>

datatype index_error =
    MissingIndexName                  \<comment> \<open>missing index name\<close>
  | MissingIndexFunction string       \<comment> \<open>missing index function for '%s'\<close>
  | IndexerKind string                \<comment> \<open>indexer for '%s' must be a SingleIndexer or MultiIndexer\<close>

datatype table_error =
    MissingTableName                  \<comment> \<open>missing table name\<close>
  | MissingTableIndexes string        \<comment> \<open>missing table indexes for '%s'\<close>
  | MustHaveIdIndex                   \<comment> \<open>must have id index\<close>
  | IdIndexMustBeUnique               \<comment> \<open>id index must be unique\<close>
  | IdIndexMustBeSingleIndexer        \<comment> \<open>id index must be a SingleIndexer\<close>
  | IndexNameMismatch string          \<comment> \<open>index name mis-match for '%s'\<close>
  | IndexError string index_error     \<comment> \<open>index %q: %s\<close>

datatype db_error =
    SchemaIsNil                       \<comment> \<open>schema is nil\<close>
  | NoTablesDefined                   \<comment> \<open>schema has no tables defined\<close>
  | TableNameMismatch string          \<comment> \<open>table name mis-match for '%s'\<close>
  | TableError string table_error     \<comment> \<open>table %q: %s\<close>

text \<open>\<open>func (s *IndexSchema) Validate() error\<close>; reading \<open>s.Name\<close> of a nil \<open>s\<close> panics.\<close>

fun IndexSchema_Validate :: "IndexSchema option \<Rightarrow> index_error option outcome" where
  "IndexSchema_Validate None = Panics"
| "IndexSchema_Validate (Some s) =
     (if Index_Name s = [] then Returns (Some MissingIndexName)
      else if Indexer s = NilIndexer then Returns (Some (MissingIndexFunction (Index_Name s)))
      else if isSingleIndexer (Indexer s) then Returns None
      else if isMultiIndexer (Indexer s) then Returns None
      else Returns (Some (IndexerKind (Index_Name s))))"

text \<open>The loop \<open>for name, index := range s.Indexes\<close> of \<open>TableSchema.Validate\<close>.\<close>

fun validateIndexes :: "(string \<times> IndexSchema option) list \<Rightarrow> table_error option outcome" where
  "validateIndexes [] = Returns None"
| "validateIndexes ((name, index) # rest) =
     (case index of
        None \<Rightarrow> Panics
      | Some ix \<Rightarrow>
          if name \<noteq> Index_Name ix then Returns (Some (IndexNameMismatch name))
          else (case IndexSchema_Validate index of
                  Panics \<Rightarrow> Panics
                | Returns (Some err) \<Rightarrow> Returns (Some (IndexError name err))
                | Returns None \<Rightarrow> validateIndexes rest))"

text \<open>
  \<open>func (s *TableSchema) Validate() error\<close>. \<open>s.Indexes["id"].Unique\<close> dereferences the
  pointer stored under \<open>"id"\<close> and panics when that pointer is nil.
\<close>

fun TableSchema_Validate :: "TableSchema option \<Rightarrow> table_error option outcome" where
  "TableSchema_Validate None = Panics"
| "TableSchema_Validate (Some s) =
     (if Table_Name s = [] then Returns (Some MissingTableName)
      else if length (Indexes s) = 0 then Returns (Some (MissingTableIndexes (Table_Name s)))
      else (case map_of (Indexes s) ''id'' of
              None \<Rightarrow> Returns (Some MustHaveIdIndex)
            | Some None \<Rightarrow> Panics
            | Some (Some idx) \<Rightarrow>
                if \<not> Unique idx then Returns (Some IdIndexMustBeUnique)
                else if \<not> isSingleIndexer (Indexer idx) then Returns (Some IdIndexMustBeSingleIndexer)
                else validateIndexes (Indexes s)))"

text \<open>The loop \<open>for name, table := range s.Tables\<close> of \<open>DBSchema.Validate\<close>.\<close>

fun validateTables :: "(string \<times> TableSchema option) list \<Rightarrow> db_error option outcome" where
  "validateTables [] = Returns None"
| "validateTables ((name, table) # rest) =
     (case table of
        None \<Rightarrow> Panics
      | Some t \<Rightarrow>
          if name \<noteq> Table_Name t then Returns (Some (TableNameMismatch name))
          else (case TableSchema_Validate table of
                  Panics \<Rightarrow> Panics
                | Returns (Some err) \<Rightarrow> Returns (Some (TableError name err))
                | Returns None \<Rightarrow> validateTables rest))"

text \<open>\<open>func (s *DBSchema) Validate() error\<close>.\<close>

fun DBSchema_Validate :: "DBSchema option \<Rightarrow> db_error option outcome" where
  "DBSchema_Validate None = Returns (Some SchemaIsNil)"
| "DBSchema_Validate (Some s) =
     (if length (Tables s) = 0 then Returns (Some NoTablesDefined)
      else validateTables (Tables s))"

section \<open>Changes (changes.go)\<close>

text \<open>
  \<open>Before\<close> and \<open>After\<close> are \<open>interface{}\<close> values: \<open>None\<close> is the nil interface,
  \<open>Some v\<close> any other value. \<open>primaryKey\<close> is a byte slice.
\<close>

record 'v Change =
  Table :: string
  Before :: "'v option"
  After :: "'v option"
  primaryKey :: string

definition Created :: "'v Change \<Rightarrow> bool" where
  "Created m = (Before m = None \<and> After m \<noteq> None)"

definition Updated :: "'v Change \<Rightarrow> bool" where
  "Updated m = (Before m \<noteq> None \<and> After m \<noteq> None)"

definition Deleted :: "'v Change \<Rightarrow> bool" where
  "Deleted m = (Before m \<noteq> None \<and> After m = None)"

section \<open>Filtering (filter.go)\<close>

text \<open>
  Modelled from the spec: the interface \<open>ResultIterator\<close> is declared outside the
  sources. A wrapped iterator is an object with a state \<open>'s\<close> and a \<open>Next\<close> method that
  returns a value (\<open>None\<close> for nil) and advances the state. A \<open>FilterFunc\<close> is a Go
  function value: it may be a closure with a state of its own (\<open>'c\<close>), which a call
  reads and updates.
\<close>

record ('s, 'c, 'v) FilterIterator =
  filter_fn :: "'c \<Rightarrow> 'v option \<Rightarrow> bool \<times> 'c"
  filter_state :: 'c
  iter_Next :: "'s \<Rightarrow> 'v option \<times> 's"
  iter_state :: 's

definition NewFilterIterator ::
  "('s \<Rightarrow> 'v option \<times> 's) \<Rightarrow> 's \<Rightarrow> ('c \<Rightarrow> 'v option \<Rightarrow> bool \<times> 'c) \<Rightarrow> 'c \<Rightarrow> ('s, 'c, 'v) FilterIterator" where
  "NewFilterIterator next s flt c =
     \<lparr>filter_fn = flt, filter_state = c, iter_Next = next, iter_state = s\<rparr>"

text \<open>
  \<open>func (f *FilterIterator) Next() interface{}\<close>: the loop
  \<open>for { if value := f.iter.Next(); value == nil || !f.filter(value) { return value } }\<close>.
  The result is the returned value with the iterator after the call; \<open>None\<close> when the
  loop never returns. \<open>||\<close> evaluates \<open>f.filter(value)\<close> only when \<open>value\<close> is not nil.
\<close>

partial_function (option) FilterIterator_Next ::
  "('s, 'c, 'v) FilterIterator \<Rightarrow> ('v option \<times> ('s, 'c, 'v) FilterIterator) option" where
  "FilterIterator_Next f =
     (case iter_Next f (iter_state f) of
        (value, s') \<Rightarrow>
          if value = None then Some (value, f\<lparr>iter_state := s'\<rparr>)
          else (case filter_fn f (filter_state f) value of
                  (rejected, c') \<Rightarrow>
                    if \<not> rejected then Some (value, f\<lparr>filter_state := c', iter_state := s'\<rparr>)
                    else FilterIterator_Next (f\<lparr>filter_state := c', iter_state := s'\<rparr>)))"

text \<open>\<open>n\<close> successive calls of \<open>Next\<close>: the values returned, in order, and the iterator left.\<close>

fun Next_times ::
  "nat \<Rightarrow> ('s, 'c, 'v) FilterIterator \<Rightarrow> ('v option list \<times> ('s, 'c, 'v) FilterIterator) option" where
  "Next_times 0 f = Some ([], f)"
| "Next_times (Suc n) f =
     (case FilterIterator_Next f of
        None \<Rightarrow> None
      | Some (value, f') \<Rightarrow>
          (case Next_times n f' of
             None \<Rightarrow> None
           | Some (values, f'') \<Rightarrow> Some (value # values, f'')))"

text \<open>The state of the wrapped iterator after \<open>k\<close> calls of its \<open>Next\<close>.\<close>

fun pulled :: "('s \<Rightarrow> 'v option \<times> 's) \<Rightarrow> nat \<Rightarrow> 's \<Rightarrow> 's" where
  "pulled next 0 s = s"
| "pulled next (Suc k) s = pulled next k (snd (next s))"

text \<open>A \<open>FilterFunc\<close> without state, given by a predicate on values.\<close>

definition pureFilter :: "('v option \<Rightarrow> bool) \<Rightarrow> unit \<Rightarrow> 'v option \<Rightarrow> bool \<times> unit" where
  "pureFilter p c value = (p value, c)"

text \<open>
  A \<open>FilterFunc\<close> that appends each argument it is called with to a log before it
  answers as the predicate \<open>p\<close> does: the log is the sequence of its invocations.
\<close>

definition loggingFilter ::
  "('v option \<Rightarrow> bool) \<Rightarrow> 'v option list \<Rightarrow> 'v option \<Rightarrow> bool \<times> 'v option list" where
  "loggingFilter p calls value = (p value, calls @ [value])"

section \<open>The database (memdb.go)\<close>

text \<open>
  Modelled from the spec: the persistent tree (package \<open>iradix\<close>) is an external
  collaborator. A tree is immutable, so a pointer to a tree is modelled by the tree
  itself, a finite map from keys (byte strings) to values. \<open>New\<close> is the empty tree;
  \<open>Insert\<close> returns the new tree, the value previously under the key and whether one
  was there.
\<close>

type_synonym 'a Tree = "string \<rightharpoonup> 'a"

definition iradix_New :: "'a Tree" where
  "iradix_New = Map.empty"

definition iradix_Insert :: "'a Tree \<Rightarrow> string \<Rightarrow> 'a \<Rightarrow> 'a Tree \<times> 'a option \<times> bool" where
  "iradix_Insert t k v = (t(k \<mapsto> v), t k, t k \<noteq> None)"

definition iradix_Get :: "'a Tree \<Rightarrow> string \<Rightarrow> 'a option \<times> bool" where
  "iradix_Get t k = (t k, t k \<noteq> None)"

text \<open>
  \<open>MemDB\<close>: \<open>schema\<close> is a pointer (\<open>None\<close> when nil), \<open>root\<close> the tree of index trees
  (of objects \<open>'o\<close>), \<open>writer\<close> the mutex (\<open>True\<close> when locked).
\<close>

record 'o MemDB =
  schema :: "DBSchema option"
  root :: "'o Tree Tree"
  primary :: bool
  writer :: bool

definition getRoot :: "'o MemDB \<Rightarrow> 'o Tree Tree" where
  "getRoot db = root db"

definition indexPath :: "string \<Rightarrow> string \<Rightarrow> string" where
  "indexPath table index = table @ ''.'' @ index"

text \<open>The inner loop of \<open>initialize\<close>: \<open>for iName := range tableSchema.Indexes\<close>.\<close>

fun initIndexes :: "string \<Rightarrow> (string \<times> IndexSchema option) list \<Rightarrow> 'o Tree Tree \<Rightarrow> 'o Tree Tree" where
  "initIndexes tName [] r = r"
| "initIndexes tName ((iName, _) # rest) r =
     (let index = iradix_New;
          path = indexPath tName iName;
          (r', _, _) = iradix_Insert r path index
      in initIndexes tName rest r')"

text \<open>
  The outer loop: \<open>for tName, tableSchema := range db.schema.Tables\<close>. Reading
  \<open>tableSchema.Indexes\<close> of a nil table panics.
\<close>

fun initTables :: "(string \<times> TableSchema option) list \<Rightarrow> 'o Tree Tree \<Rightarrow> 'o Tree Tree outcome" where
  "initTables [] r = Returns r"
| "initTables ((tName, tableSchema) # rest) r =
     (case tableSchema of
        None \<Rightarrow> Panics
      | Some ts \<Rightarrow> initTables rest (initIndexes tName (Indexes ts) r))"

text \<open>
  \<open>func (db *MemDB) initialize() error\<close>: the database after the call and the error
  (always nil). Reading \<open>db.schema.Tables\<close> of a nil schema panics.
\<close>

definition initialize :: "'o MemDB \<Rightarrow> ('o MemDB \<times> unit option) outcome" where
  "initialize db =
     (case schema db of
        None \<Rightarrow> Panics
      | Some s \<Rightarrow>
          (case initTables (Tables s) (getRoot db) of
             Panics \<Rightarrow> Panics
           | Returns r \<Rightarrow> Returns (db\<lparr>root := r\<rparr>, None)))"

text \<open>
  The errors \<open>NewMemDB\<close> can return: that of \<open>Validate\<close> or that of \<open>initialize\<close>.
\<close>

datatype memdb_error = ValidateError db_error | InitializeError unit

text \<open>
  \<open>func NewMemDB(schema *DBSchema) (*MemDB, error)\<close>: the pair returned, the database
  pointer being \<open>None\<close> when nil.
\<close>

definition NewMemDB :: "DBSchema option \<Rightarrow> ('o MemDB option \<times> memdb_error option) outcome" where
  "NewMemDB sch =
     (case DBSchema_Validate sch of
        Panics \<Rightarrow> Panics
      | Returns (Some err) \<Rightarrow> Returns (None, Some (ValidateError err))
      | Returns None \<Rightarrow>
          (case initialize \<lparr>schema = sch, root = iradix_New, primary = True, writer = False\<rparr> of
             Panics \<Rightarrow> Panics
           | Returns (db, Some err) \<Rightarrow> Returns (None, Some (InitializeError err))
           | Returns (db, None) \<Rightarrow> Returns (Some db, None)))"

text \<open>
  \<open>func (db *MemDB) Snapshot() *MemDB\<close>: the database \<open>db\<close> as the call leaves it and
  the clone returned. The clone's mutex is a new, unlocked one.
\<close>

definition Snapshot :: "'o MemDB \<Rightarrow> 'o MemDB \<times> 'o MemDB" where
  "Snapshot db = (db, \<lparr>schema = schema db, root = getRoot db, primary = False, writer = False\<rparr>)"

section \<open>Well-formed schemas\<close>

text \<open>
  The well-formed schemas, in the words of the specification: the schema is not nil
  and has at least one table; every table is stored under its own, non-empty name and
  holds a unique single-value \<open>"id"\<close> index; every index is stored under its own,
  non-empty name and has a \<open>SingleIndexer\<close> or a \<open>MultiIndexer\<close>.
\<close>

definition wellFormedIndex :: "string \<times> IndexSchema option \<Rightarrow> bool" where
  "wellFormedIndex e =
     (case e of
        (name, None) \<Rightarrow> False
      | (name, Some ix) \<Rightarrow>
          Index_Name ix = name \<and> name \<noteq> [] \<and>
          (isSingleIndexer (Indexer ix) \<or> isMultiIndexer (Indexer ix)))"

definition hasPrimaryIndex :: "TableSchema \<Rightarrow> bool" where
  "hasPrimaryIndex t =
     (case map_of (Indexes t) ''id'' of
        Some (Some idx) \<Rightarrow> Unique idx \<and> isSingleIndexer (Indexer idx)
      | _ \<Rightarrow> False)"

definition wellFormedTable :: "string \<times> TableSchema option \<Rightarrow> bool" where
  "wellFormedTable e =
     (case e of
        (name, None) \<Rightarrow> False
      | (name, Some t) \<Rightarrow>
          Table_Name t = name \<and> name \<noteq> [] \<and> hasPrimaryIndex t \<and>
          list_all wellFormedIndex (Indexes t))"

definition wellFormedSchema :: "DBSchema option \<Rightarrow> bool" where
  "wellFormedSchema s =
     (case s of
        None \<Rightarrow> False
      | Some d \<Rightarrow> Tables d \<noteq> [] \<and> list_all wellFormedTable (Tables d))"

section \<open>Schemas that violate the primary index\<close>

text \<open>
  A table violates the primary index when it has no \<open>"id"\<close> index, or its \<open>"id"\<close> index
  is not marked \<open>Unique\<close>, or the indexer of its \<open>"id"\<close> index is not a
  \<open>SingleIndexer\<close> (a \<open>MultiIndexer\<close> only, for one).
\<close>

definition violatesPrimaryIndex :: "TableSchema \<Rightarrow> bool" where
  "violatesPrimaryIndex t =
     (case map_of (Indexes t) ''id'' of
        None \<Rightarrow> True
      | Some None \<Rightarrow> False
      | Some (Some idx) \<Rightarrow> \<not> Unique idx \<or> \<not> isSingleIndexer (Indexer idx))"

definition someTableViolates :: "DBSchema \<Rightarrow> bool" where
  "someTableViolates d =
     list_ex (\<lambda>(name, tbl). case tbl of None \<Rightarrow> False | Some t \<Rightarrow> violatesPrimaryIndex t) (Tables d)"

text \<open>No pointer stored in the maps of the schema is nil.\<close>

definition noNilIndex :: "TableSchema \<Rightarrow> bool" where
  "noNilIndex t = list_all (\<lambda>(name, index). index \<noteq> None) (Indexes t)"

definition noNilEntry :: "DBSchema \<Rightarrow> bool" where
  "noNilEntry d =
     list_all (\<lambda>(name, tbl). case tbl of None \<Rightarrow> False | Some t \<Rightarrow> noNilIndex t) (Tables d)"

section \<open>The paths of the declared indexes\<close>

text \<open>
  The keys \<open>indexPath tName iName\<close> of the indexes that a table, and a list of tables,
  declare.
\<close>

definition indexPaths :: "string \<Rightarrow> (string \<times> IndexSchema option) list \<Rightarrow> string list" where
  "indexPaths tName ixs = map (\<lambda>(iName, _). indexPath tName iName) ixs"

fun tablePaths :: "(string \<times> TableSchema option) list \<Rightarrow> string list" where
  "tablePaths [] = []"
| "tablePaths ((tName, None) # rest) = tablePaths rest"
| "tablePaths ((tName, Some t) # rest) = indexPaths tName (Indexes t) @ tablePaths rest"

section \<open>Example schemas\<close>

text \<open>
  A table \<open>users\<close> with a unique single-value \<open>id\<close> index and a multi-value \<open>email\<close>
  index, and indexes and tables that break one rule each.
\<close>

definition usersIdIndex :: IndexSchema where
  "usersIdIndex = \<lparr>Index_Name = ''id'', AllowMissing = False, Unique = True, Indexer = IndexerValue True False\<rparr>"

definition emailIndex :: IndexSchema where
  "emailIndex = \<lparr>Index_Name = ''email'', AllowMissing = True, Unique = False, Indexer = IndexerValue False True\<rparr>"

definition usersTable :: TableSchema where
  "usersTable = \<lparr>Table_Name = ''users'', Indexes = [(''email'', Some emailIndex), (''id'', Some usersIdIndex)]\<rparr>"

definition usersSchema :: DBSchema where
  "usersSchema = \<lparr>Tables = [(''users'', Some usersTable)]\<rparr>"

definition noIdTable :: TableSchema where
  "noIdTable = \<lparr>Table_Name = ''orders'', Indexes = [(''email'', Some emailIndex)]\<rparr>"

definition unnamedIndex :: IndexSchema where
  "unnamedIndex = \<lparr>Index_Name = [], AllowMissing = False, Unique = False, Indexer = NilIndexer\<rparr>"

definition noIndexerIndex :: IndexSchema where
  "noIndexerIndex = \<lparr>Index_Name = ''email'', AllowMissing = False, Unique = False, Indexer = NilIndexer\<rparr>"

definition otherIndexerIndex :: IndexSchema where
  "otherIndexerIndex = \<lparr>Index_Name = ''email'', AllowMissing = False, Unique = False, Indexer = IndexerValue False False\<rparr>"

definition nonUniqueIdIndex :: IndexSchema where
  "nonUniqueIdIndex = \<lparr>Index_Name = ''id'', AllowMissing = False, Unique = False, Indexer = IndexerValue True False\<rparr>"

definition multiIdIndex :: IndexSchema where
  "multiIdIndex = \<lparr>Index_Name = ''id'', AllowMissing = False, Unique = True, Indexer = IndexerValue False True\<rparr>"


section \<open>Example iterators and filters\<close>

text \<open>
  A wrapped iterator that replays a fixed sequence of results of \<open>Next\<close>: it yields them
  in order, nil results among them, and nil once the sequence is used up. Its state is
  the rest of the sequence. On \<open>map Some xs\<close> it is an iterator over the values \<open>xs\<close>.
\<close>

fun replayNext :: "'v option list \<Rightarrow> 'v option \<times> 'v option list" where
  "replayNext [] = (None, [])"
| "replayNext (x # xs) = (x, xs)"

text \<open>The predicate of a filter that rejects the even numbers.\<close>

definition rejectEven :: "int option \<Rightarrow> bool" where
  "rejectEven value = (case value of None \<Rightarrow> False | Some n \<Rightarrow> even n)"


section \<open>Properties of the change predicates\<close>

text \<open>
  C2. For every \<open>Change\<close>: \<open>Created\<close> holds exactly when \<open>Before\<close> is nil and \<open>After\<close> is
  not; \<open>Deleted\<close> exactly when \<open>Before\<close> is not nil and \<open>After\<close> is; \<open>Updated\<close> exactly
  when neither is nil; and no two of the three hold of the same \<open>Change\<close>.
\<close>

theorem Change_predicates:
  "(Created m \<longleftrightarrow> Before m = None \<and> After m \<noteq> None) \<and>
   (Deleted m \<longleftrightarrow> Before m \<noteq> None \<and> After m = None) \<and>
   (Updated m \<longleftrightarrow> Before m \<noteq> None \<and> After m \<noteq> None) \<and>
   \<not> (Created m \<and> Deleted m) \<and> \<not> (Created m \<and> Updated m) \<and> \<not> (Deleted m \<and> Updated m)"
  by (auto simp add: Created_def Deleted_def Updated_def)

section \<open>Properties of schema validation\<close>

lemma IndexSchema_Validate_ok:
  "IndexSchema_Validate (Some ix) = Returns None \<longleftrightarrow>
     Index_Name ix \<noteq> [] \<and> (isSingleIndexer (Indexer ix) \<or> isMultiIndexer (Indexer ix))"
  by (cases "Indexer ix") auto

lemma validateIndexes_ok:
  "validateIndexes ixs = Returns None \<longleftrightarrow> list_all wellFormedIndex ixs"
proof (induction ixs)
  case Nil
  show ?case by simp
next
  case (Cons e ixs)
  obtain name index where e: "e = (name, index)" by (cases e)
  show ?case
  proof (cases index)
    case None
    with e show ?thesis by (simp add: wellFormedIndex_def)
  next
    case (Some ix)
    show ?thesis
    proof (cases "IndexSchema_Validate (Some ix)")
      case Panics
      then show ?thesis by (cases "Indexer ix") (auto split: if_splits)
    next
      case (Returns r)
      with Cons.IH e Some IndexSchema_Validate_ok [of ix] show ?thesis
        by (cases r) (auto simp: wellFormedIndex_def)
    qed
  qed
qed

lemma TableSchema_Validate_ok:
  "TableSchema_Validate (Some t) = Returns None \<longleftrightarrow>
     Table_Name t \<noteq> [] \<and> hasPrimaryIndex t \<and> list_all wellFormedIndex (Indexes t)"
proof (cases "map_of (Indexes t) ''id''")
  case None
  then show ?thesis by (simp add: hasPrimaryIndex_def)
next
  case (Some p)
  then have ne: "Indexes t \<noteq> []" by auto
  show ?thesis
  proof (cases p)
    case None
    with Some ne show ?thesis by (simp add: hasPrimaryIndex_def)
  next
    case (Some idx)
    with \<open>map_of (Indexes t) ''id'' = Some p\<close> ne validateIndexes_ok [of "Indexes t"]
    show ?thesis by (auto simp: hasPrimaryIndex_def)
  qed
qed

lemma validateTables_ok:
  "validateTables ts = Returns None \<longleftrightarrow> list_all wellFormedTable ts"
proof (induction ts)
  case Nil
  show ?case by simp
next
  case (Cons e ts)
  obtain name tbl where e: "e = (name, tbl)" by (cases e)
  show ?case
  proof (cases tbl)
    case None
    with e show ?thesis by (simp add: wellFormedTable_def)
  next
    case (Some t)
    show ?thesis
    proof (cases "TableSchema_Validate (Some t)")
      case Panics
      with e Some TableSchema_Validate_ok [of t] show ?thesis
        by (auto simp: wellFormedTable_def)
    next
      case (Returns r)
      with Cons.IH e Some TableSchema_Validate_ok [of t] show ?thesis
        by (cases r) (auto simp: wellFormedTable_def)
    qed
  qed
qed

lemma DBSchema_Validate_ok:
  "DBSchema_Validate s = Returns None \<longleftrightarrow> wellFormedSchema s"
  by (cases s) (auto simp: wellFormedSchema_def validateTables_ok)

lemmas example_defs = usersIdIndex_def emailIndex_def usersTable_def noIdTable_def unnamedIndex_def
  noIndexerIndex_def otherIndexerIndex_def nonUniqueIdIndex_def multiIdIndex_def

lemma violates_not_primary: "violatesPrimaryIndex t \<Longrightarrow> \<not> hasPrimaryIndex t"
  by (auto simp: violatesPrimaryIndex_def hasPrimaryIndex_def split: option.splits)

lemma someTableViolates_not_wellFormed:
  assumes "someTableViolates d"
  shows "\<not> list_all wellFormedTable (Tables d)"
proof -
  from assms obtain name t where "(name, Some t) \<in> set (Tables d)" "violatesPrimaryIndex t"
    by (auto simp: someTableViolates_def list_ex_iff split: option.splits)
  then have "(name, Some t) \<in> set (Tables d)" "\<not> wellFormedTable (name, Some t)"
    by (auto simp: wellFormedTable_def dest: violates_not_primary)
  then show ?thesis by (auto simp: list_all_iff)
qed

lemma IndexSchema_Validate_no_panic: "IndexSchema_Validate (Some ix) \<noteq> Panics"
  by simp

lemma validateIndexes_no_panic:
  "list_all (\<lambda>(name, index). index \<noteq> None) ixs \<Longrightarrow> validateIndexes ixs \<noteq> Panics"
proof (induction ixs)
  case Nil
  show ?case by simp
next
  case (Cons e ixs)
  obtain name index where e: "e = (name, index)" by (cases e)
  with Cons.prems obtain ix where ix: "index = Some ix" by auto
  from Cons have IH: "validateIndexes ixs \<noteq> Panics" by simp
  show ?case
  proof (cases "IndexSchema_Validate (Some ix)")
    case Panics
    then show ?thesis by (simp split: if_splits)
  next
    case (Returns r)
    with IH e ix show ?thesis by (cases r) auto
  qed
qed

lemma TableSchema_Validate_no_panic:
  assumes "noNilIndex t"
  shows "TableSchema_Validate (Some t) \<noteq> Panics"
proof (cases "map_of (Indexes t) ''id''")
  case None
  then show ?thesis by simp
next
  case (Some p)
  then have "(''id'', p) \<in> set (Indexes t)" by (rule map_of_SomeD)
  with assms obtain idx where "p = Some idx"
    by (auto simp: noNilIndex_def list_all_iff)
  with Some assms validateIndexes_no_panic [of "Indexes t"] show ?thesis
    by (simp add: noNilIndex_def)
qed

lemma validateTables_no_panic:
  "list_all (\<lambda>(name, tbl). case tbl of None \<Rightarrow> False | Some t \<Rightarrow> noNilIndex t) ts
     \<Longrightarrow> validateTables ts \<noteq> Panics"
proof (induction ts)
  case Nil
  show ?case by simp
next
  case (Cons e ts)
  obtain name tbl where e: "e = (name, tbl)" by (cases e)
  with Cons.prems obtain t where t: "tbl = Some t" "noNilIndex t"
    by (auto split: option.splits)
  from Cons have IH: "validateTables ts \<noteq> Panics" by simp
  show ?case
  proof (cases "TableSchema_Validate (Some t)")
    case Panics
    with t TableSchema_Validate_no_panic show ?thesis by blast
  next
    case (Returns r)
    with IH e t show ?thesis by (cases r) auto
  qed
qed

lemma DBSchema_Validate_no_panic: "noNilEntry d \<Longrightarrow> DBSchema_Validate (Some d) \<noteq> Panics"
  using validateTables_no_panic [of "Tables d"] by (simp add: noNilEntry_def)

text \<open>
  C1, as the code has it. \<open>Validate\<close> does not return an error for every schema with a
  table that lacks an \<open>"id"\<close> index: when \<open>range\<close> visits a nil table pointer first,
  reading \<open>table.Name\<close> panics before the table without \<open>"id"\<close> is looked at.
\<close>

theorem Validate_panics_on_nil_table:
  "someTableViolates \<lparr>Tables = [(''audit'', None), (''orders'', Some noIdTable)]\<rparr> \<and>
   DBSchema_Validate (Some \<lparr>Tables = [(''audit'', None), (''orders'', Some noIdTable)]\<rparr>) = Panics"
  by (simp add: someTableViolates_def violatesPrimaryIndex_def noIdTable_def)

text \<open>
  C1, amended. For every schema with a table that lacks an \<open>"id"\<close> index, whose \<open>"id"\<close>
  index is not \<open>Unique\<close> or whose \<open>"id"\<close> indexer is not a \<open>SingleIndexer\<close>, \<open>Validate\<close>
  never returns nil; it returns an error when no table or index pointer of the schema
  is nil. For every well-formed schema \<open>Validate\<close> returns nil.
\<close>

theorem Validate_primary_index:
  "(someTableViolates d \<longrightarrow> DBSchema_Validate (Some d) \<noteq> Returns None) \<and>
   (someTableViolates d \<and> noNilEntry d \<longrightarrow> (\<exists>err. DBSchema_Validate (Some d) = Returns (Some err))) \<and>
   (wellFormedSchema s \<longrightarrow> DBSchema_Validate s = Returns None)"
proof (intro conjI impI)
  assume "someTableViolates d"
  then show "DBSchema_Validate (Some d) \<noteq> Returns None"
    using DBSchema_Validate_ok [of "Some d"] someTableViolates_not_wellFormed [of d]
    by (simp add: wellFormedSchema_def)
next
  assume a: "someTableViolates d \<and> noNilEntry d"
  then have "DBSchema_Validate (Some d) \<noteq> Returns None"
    using DBSchema_Validate_ok [of "Some d"] someTableViolates_not_wellFormed [of d]
    by (simp add: wellFormedSchema_def)
  moreover from a have "DBSchema_Validate (Some d) \<noteq> Panics"
    using DBSchema_Validate_no_panic [of d] by blast
  ultimately show "\<exists>err. DBSchema_Validate (Some d) = Returns (Some err)"
    by (cases "DBSchema_Validate (Some d)") auto
next
  assume "wellFormedSchema s"
  then show "DBSchema_Validate s = Returns None"
    by (simp add: DBSchema_Validate_ok)
qed

theorem Validate_primary_index_witness:
  "someTableViolates \<lparr>Tables = [(''users'', Some usersTable), (''orders'', Some noIdTable)]\<rparr> \<and>
   noNilEntry \<lparr>Tables = [(''users'', Some usersTable), (''orders'', Some noIdTable)]\<rparr> \<and>
   DBSchema_Validate (Some \<lparr>Tables = [(''users'', Some usersTable), (''orders'', Some noIdTable)]\<rparr>)
     = Returns (Some (TableError ''orders'' MustHaveIdIndex)) \<and>
   wellFormedSchema (Some \<lparr>Tables = [(''users'', Some usersTable)]\<rparr>) \<and>
   DBSchema_Validate (Some \<lparr>Tables = [(''users'', Some usersTable)]\<rparr>) = Returns None"
proof -
  let ?bad = "\<lparr>Tables = [(''users'', Some usersTable), (''orders'', Some noIdTable)]\<rparr>"
  let ?good = "\<lparr>Tables = [(''users'', Some usersTable)]\<rparr>"
  have v: "someTableViolates ?bad"
    by (simp add: someTableViolates_def violatesPrimaryIndex_def noIdTable_def usersTable_def)
  have n: "noNilEntry ?bad"
    by (simp add: noNilEntry_def noNilIndex_def noIdTable_def usersTable_def)
  have w: "wellFormedSchema (Some ?good)"
    by (simp add: wellFormedSchema_def wellFormedTable_def wellFormedIndex_def hasPrimaryIndex_def
        usersTable_def usersIdIndex_def emailIndex_def)
  have e: "DBSchema_Validate (Some ?bad) = Returns (Some (TableError ''orders'' MustHaveIdIndex))"
    by (simp add: noIdTable_def usersTable_def usersIdIndex_def emailIndex_def)
  from Validate_primary_index [of ?bad "Some ?good"] v n w e show ?thesis by simp
qed

lemma validateIndexes_prefix:
  "list_all wellFormedIndex pre \<Longrightarrow> validateIndexes (pre @ rest) = validateIndexes rest"
proof (induction pre)
  case Nil
  show ?case by simp
next
  case (Cons e pre)
  obtain name index where e: "e = (name, index)" by (cases e)
  from Cons.prems have w: "wellFormedIndex e" and ws: "list_all wellFormedIndex pre"
    by simp_all
  from w e obtain ix where ix: "index = Some ix" "Index_Name ix = name" "name \<noteq> []"
    "isSingleIndexer (Indexer ix) \<or> isMultiIndexer (Indexer ix)"
    by (cases index) (auto simp: wellFormedIndex_def)
  then have "IndexSchema_Validate (Some ix) = Returns None"
    using IndexSchema_Validate_ok [of ix] by blast
  with Cons.IH [OF ws] e ix show ?case
    by (simp del: IndexSchema_Validate.simps)
qed

lemma validateTables_prefix:
  "list_all wellFormedTable pre \<Longrightarrow> validateTables (pre @ rest) = validateTables rest"
proof (induction pre)
  case Nil
  show ?case by simp
next
  case (Cons e pre)
  obtain name tbl where e: "e = (name, tbl)" by (cases e)
  from Cons.prems have w: "wellFormedTable e" and ws: "list_all wellFormedTable pre"
    by simp_all
  from w e obtain t where t: "tbl = Some t" "Table_Name t = name" "name \<noteq> []"
    "hasPrimaryIndex t" "list_all wellFormedIndex (Indexes t)"
    by (cases tbl) (auto simp: wellFormedTable_def)
  then have "TableSchema_Validate (Some t) = Returns None"
    using TableSchema_Validate_ok [of t] by blast
  with Cons.IH [OF ws] e t show ?case
    by (simp del: TableSchema_Validate.simps)
qed

lemma DBSchema_first_violation:
  "DBSchema_Validate None = Returns (Some SchemaIsNil)"
  "Tables d = [] \<Longrightarrow> DBSchema_Validate (Some d) = Returns (Some NoTablesDefined)"
  "Tables d = pre @ (name, Some t) # rest \<Longrightarrow> list_all wellFormedTable pre \<Longrightarrow>
     name \<noteq> Table_Name t \<Longrightarrow>
     DBSchema_Validate (Some d) = Returns (Some (TableNameMismatch name))"
  "Tables d = pre @ (name, Some t) # rest \<Longrightarrow> list_all wellFormedTable pre \<Longrightarrow>
     name = Table_Name t \<Longrightarrow> TableSchema_Validate (Some t) = Returns (Some terr) \<Longrightarrow>
     DBSchema_Validate (Some d) = Returns (Some (TableError name terr))"
  by (simp_all add: validateTables_prefix)

lemma TableSchema_first_violation:
  "Table_Name t = [] \<Longrightarrow> TableSchema_Validate (Some t) = Returns (Some MissingTableName)"
  "Table_Name t \<noteq> [] \<Longrightarrow> Indexes t = [] \<Longrightarrow>
     TableSchema_Validate (Some t) = Returns (Some (MissingTableIndexes (Table_Name t)))"
  "Table_Name t \<noteq> [] \<Longrightarrow> Indexes t \<noteq> [] \<Longrightarrow> map_of (Indexes t) ''id'' = None \<Longrightarrow>
     TableSchema_Validate (Some t) = Returns (Some MustHaveIdIndex)"
  "Table_Name t \<noteq> [] \<Longrightarrow> map_of (Indexes t) ''id'' = Some (Some idx) \<Longrightarrow> \<not> Unique idx \<Longrightarrow>
     TableSchema_Validate (Some t) = Returns (Some IdIndexMustBeUnique)"
  "Table_Name t \<noteq> [] \<Longrightarrow> map_of (Indexes t) ''id'' = Some (Some idx) \<Longrightarrow> Unique idx \<Longrightarrow>
     \<not> isSingleIndexer (Indexer idx) \<Longrightarrow>
     TableSchema_Validate (Some t) = Returns (Some IdIndexMustBeSingleIndexer)"
  by auto

lemma TableSchema_first_index_violation:
  assumes "Table_Name t \<noteq> []" "map_of (Indexes t) ''id'' = Some (Some idx)" "Unique idx"
    "isSingleIndexer (Indexer idx)"
    "Indexes t = ipre @ (iname, Some ix) # irest" "list_all wellFormedIndex ipre"
  shows "iname \<noteq> Index_Name ix \<Longrightarrow>
           TableSchema_Validate (Some t) = Returns (Some (IndexNameMismatch iname))"
    and "iname = Index_Name ix \<Longrightarrow> IndexSchema_Validate (Some ix) = Returns (Some ierr) \<Longrightarrow>
           TableSchema_Validate (Some t) = Returns (Some (IndexError iname ierr))"
proof -
  from assms have v: "TableSchema_Validate (Some t) = validateIndexes ((iname, Some ix) # irest)"
    by (simp add: validateIndexes_prefix)
  show "iname \<noteq> Index_Name ix \<Longrightarrow>
           TableSchema_Validate (Some t) = Returns (Some (IndexNameMismatch iname))"
    using v by simp
  show "iname = Index_Name ix \<Longrightarrow> IndexSchema_Validate (Some ix) = Returns (Some ierr) \<Longrightarrow>
           TableSchema_Validate (Some t) = Returns (Some (IndexError iname ierr))"
    using v by simp
qed

lemma IndexSchema_first_violation:
  "Index_Name ix = [] \<Longrightarrow> IndexSchema_Validate (Some ix) = Returns (Some MissingIndexName)"
  "Index_Name ix \<noteq> [] \<Longrightarrow> Indexer ix = NilIndexer \<Longrightarrow>
     IndexSchema_Validate (Some ix) = Returns (Some (MissingIndexFunction (Index_Name ix)))"
  "Index_Name ix \<noteq> [] \<Longrightarrow> Indexer ix \<noteq> NilIndexer \<Longrightarrow> \<not> isSingleIndexer (Indexer ix) \<Longrightarrow>
     \<not> isMultiIndexer (Indexer ix) \<Longrightarrow>
     IndexSchema_Validate (Some ix) = Returns (Some (IndexerKind (Index_Name ix)))"
  by simp_all

text \<open>
  C7. \<open>Validate\<close> returns the first violation in a fixed order. For a \<open>DBSchema\<close>: nil
  schema, then no tables, then, at the first table that \<open>range\<close> visits and that is not
  well-formed, the mismatch of key and name before the error of the table's own
  \<open>Validate\<close>. For a \<open>TableSchema\<close>: empty name (whatever the indexes are), then no
  indexes, then no \<open>"id"\<close> index, then \<open>"id"\<close> not \<open>Unique\<close>, then \<open>"id"\<close> not a
  \<open>SingleIndexer\<close>, then, at the first index visited that is not well-formed, the
  mismatch of key and name before the error of the index's own \<open>Validate\<close>. For an
  \<open>IndexSchema\<close>: empty name, then nil indexer, then an indexer that is neither a
  \<open>SingleIndexer\<close> nor a \<open>MultiIndexer\<close>.
\<close>

theorem Validate_first_violation:
  "DBSchema_Validate None = Returns (Some SchemaIsNil) \<and>
   (Tables d = [] \<longrightarrow> DBSchema_Validate (Some d) = Returns (Some NoTablesDefined)) \<and>
   (Tables d = pre @ (name, Some t) # rest \<and> list_all wellFormedTable pre \<and>
      name \<noteq> Table_Name t \<longrightarrow>
      DBSchema_Validate (Some d) = Returns (Some (TableNameMismatch name))) \<and>
   (Tables d = pre @ (name, Some t) # rest \<and> list_all wellFormedTable pre \<and>
      name = Table_Name t \<and> TableSchema_Validate (Some t) = Returns (Some terr) \<longrightarrow>
      DBSchema_Validate (Some d) = Returns (Some (TableError name terr))) \<and>
   (Table_Name t = [] \<longrightarrow> TableSchema_Validate (Some t) = Returns (Some MissingTableName)) \<and>
   (Table_Name t \<noteq> [] \<and> Indexes t = [] \<longrightarrow>
      TableSchema_Validate (Some t) = Returns (Some (MissingTableIndexes (Table_Name t)))) \<and>
   (Table_Name t \<noteq> [] \<and> Indexes t \<noteq> [] \<and> map_of (Indexes t) ''id'' = None \<longrightarrow>
      TableSchema_Validate (Some t) = Returns (Some MustHaveIdIndex)) \<and>
   (Table_Name t \<noteq> [] \<and> map_of (Indexes t) ''id'' = Some (Some idx) \<and> \<not> Unique idx \<longrightarrow>
      TableSchema_Validate (Some t) = Returns (Some IdIndexMustBeUnique)) \<and>
   (Table_Name t \<noteq> [] \<and> map_of (Indexes t) ''id'' = Some (Some idx) \<and> Unique idx \<and>
      \<not> isSingleIndexer (Indexer idx) \<longrightarrow>
      TableSchema_Validate (Some t) = Returns (Some IdIndexMustBeSingleIndexer)) \<and>
   (Table_Name t \<noteq> [] \<and> map_of (Indexes t) ''id'' = Some (Some idx) \<and> Unique idx \<and>
      isSingleIndexer (Indexer idx) \<and>
      Indexes t = ipre @ (iname, Some ix) # irest \<and> list_all wellFormedIndex ipre \<and>
      iname \<noteq> Index_Name ix \<longrightarrow>
      TableSchema_Validate (Some t) = Returns (Some (IndexNameMismatch iname))) \<and>
   (Table_Name t \<noteq> [] \<and> map_of (Indexes t) ''id'' = Some (Some idx) \<and> Unique idx \<and>
      isSingleIndexer (Indexer idx) \<and>
      Indexes t = ipre @ (iname, Some ix) # irest \<and> list_all wellFormedIndex ipre \<and>
      iname = Index_Name ix \<and> IndexSchema_Validate (Some ix) = Returns (Some ierr) \<longrightarrow>
      TableSchema_Validate (Some t) = Returns (Some (IndexError iname ierr))) \<and>
   (Index_Name ix = [] \<longrightarrow> IndexSchema_Validate (Some ix) = Returns (Some MissingIndexName)) \<and>
   (Index_Name ix \<noteq> [] \<and> Indexer ix = NilIndexer \<longrightarrow>
      IndexSchema_Validate (Some ix) = Returns (Some (MissingIndexFunction (Index_Name ix)))) \<and>
   (Index_Name ix \<noteq> [] \<and> Indexer ix \<noteq> NilIndexer \<and> \<not> isSingleIndexer (Indexer ix) \<and>
      \<not> isMultiIndexer (Indexer ix) \<longrightarrow>
      IndexSchema_Validate (Some ix) = Returns (Some (IndexerKind (Index_Name ix))))"
  by (intro conjI impI; (elim conjE)?;
      (rule DBSchema_first_violation TableSchema_first_violation
         TableSchema_first_index_violation IndexSchema_first_violation; assumption))

theorem Validate_first_violation_witness:
  "DBSchema_Validate (Some \<lparr>Tables = []\<rparr>) = Returns (Some NoTablesDefined) \<and>
   DBSchema_Validate (Some \<lparr>Tables = [(''users'', Some usersTable),
       (''orders'', Some \<lparr>Table_Name = ''order'', Indexes = []\<rparr>)]\<rparr>)
     = Returns (Some (TableNameMismatch ''orders'')) \<and>
   DBSchema_Validate (Some \<lparr>Tables = [(''users'', Some usersTable), (''orders'', Some noIdTable)]\<rparr>)
     = Returns (Some (TableError ''orders'' MustHaveIdIndex)) \<and>
   TableSchema_Validate (Some \<lparr>Table_Name = [], Indexes = [(''email'', Some unnamedIndex)]\<rparr>)
     = Returns (Some MissingTableName) \<and>
   TableSchema_Validate (Some \<lparr>Table_Name = ''order'', Indexes = []\<rparr>)
     = Returns (Some (MissingTableIndexes ''order'')) \<and>
   TableSchema_Validate (Some noIdTable) = Returns (Some MustHaveIdIndex) \<and>
   TableSchema_Validate (Some \<lparr>Table_Name = ''users'',
       Indexes = [(''email'', Some unnamedIndex), (''id'', Some nonUniqueIdIndex)]\<rparr>)
     = Returns (Some IdIndexMustBeUnique) \<and>
   TableSchema_Validate (Some \<lparr>Table_Name = ''users'',
       Indexes = [(''email'', Some unnamedIndex), (''id'', Some multiIdIndex)]\<rparr>)
     = Returns (Some IdIndexMustBeSingleIndexer) \<and>
   TableSchema_Validate (Some \<lparr>Table_Name = ''users'',
       Indexes = [(''id'', Some usersIdIndex), (''mail'', Some noIndexerIndex)]\<rparr>)
     = Returns (Some (IndexNameMismatch ''mail'')) \<and>
   TableSchema_Validate (Some \<lparr>Table_Name = ''users'',
       Indexes = [(''id'', Some usersIdIndex), (''email'', Some noIndexerIndex)]\<rparr>)
     = Returns (Some (IndexError ''email'' (MissingIndexFunction ''email''))) \<and>
   IndexSchema_Validate (Some unnamedIndex) = Returns (Some MissingIndexName) \<and>
   IndexSchema_Validate (Some noIndexerIndex) = Returns (Some (MissingIndexFunction ''email'')) \<and>
   IndexSchema_Validate (Some otherIndexerIndex) = Returns (Some (IndexerKind ''email''))"
proof -
  let ?order = "\<lparr>Table_Name = ''order'', Indexes = []\<rparr>"
  let ?users = "(''users'', Some usersTable)"
  have wf: "list_all wellFormedTable [?users]"
    by (simp add: wellFormedTable_def wellFormedIndex_def hasPrimaryIndex_def example_defs)
  have wfi: "list_all wellFormedIndex [(''id'', Some usersIdIndex)]"
    by (simp add: wellFormedIndex_def example_defs)
  have 1: "DBSchema_Validate (Some \<lparr>Tables = []\<rparr>) = Returns (Some NoTablesDefined)"
    using Validate_first_violation [where d = "\<lparr>Tables = []\<rparr>"] by simp
  have 2: "DBSchema_Validate (Some \<lparr>Tables = [?users, (''orders'', Some ?order)]\<rparr>)
     = Returns (Some (TableNameMismatch ''orders''))"
    using wf Validate_first_violation [where d = "\<lparr>Tables = [?users, (''orders'', Some ?order)]\<rparr>"
        and pre = "[?users]" and name = "''orders''" and t = ?order and rest = "[]"]
    by simp
  have 6: "TableSchema_Validate (Some noIdTable) = Returns (Some MustHaveIdIndex)"
    using Validate_first_violation [where t = noIdTable]
    by (simp add: noIdTable_def)
  have 3: "DBSchema_Validate (Some \<lparr>Tables = [?users, (''orders'', Some noIdTable)]\<rparr>)
     = Returns (Some (TableError ''orders'' MustHaveIdIndex))"
    using wf 6 Validate_first_violation [where d = "\<lparr>Tables = [?users, (''orders'', Some noIdTable)]\<rparr>"
        and pre = "[?users]" and name = "''orders''" and t = noIdTable and rest = "[]"
        and terr = MustHaveIdIndex]
    by (simp add: noIdTable_def)
  have 4: "TableSchema_Validate (Some \<lparr>Table_Name = [], Indexes = [(''email'', Some unnamedIndex)]\<rparr>)
     = Returns (Some MissingTableName)"
    using Validate_first_violation
      [where t = "\<lparr>Table_Name = [], Indexes = [(''email'', Some unnamedIndex)]\<rparr>"]
    by simp
  have 5: "TableSchema_Validate (Some ?order) = Returns (Some (MissingTableIndexes ''order''))"
    using Validate_first_violation [where t = ?order] by simp
  have 7: "TableSchema_Validate (Some \<lparr>Table_Name = ''users'',
       Indexes = [(''email'', Some unnamedIndex), (''id'', Some nonUniqueIdIndex)]\<rparr>)
     = Returns (Some IdIndexMustBeUnique)"
    using Validate_first_violation [where t = "\<lparr>Table_Name = ''users'',
       Indexes = [(''email'', Some unnamedIndex), (''id'', Some nonUniqueIdIndex)]\<rparr>"
       and idx = nonUniqueIdIndex]
    by (simp add: nonUniqueIdIndex_def)
  have 8: "TableSchema_Validate (Some \<lparr>Table_Name = ''users'',
       Indexes = [(''email'', Some unnamedIndex), (''id'', Some multiIdIndex)]\<rparr>)
     = Returns (Some IdIndexMustBeSingleIndexer)"
    using Validate_first_violation [where t = "\<lparr>Table_Name = ''users'',
       Indexes = [(''email'', Some unnamedIndex), (''id'', Some multiIdIndex)]\<rparr>"
       and idx = multiIdIndex]
    by (simp add: multiIdIndex_def)
  have 11: "IndexSchema_Validate (Some unnamedIndex) = Returns (Some MissingIndexName)"
    using Validate_first_violation [where ix = unnamedIndex] by (simp add: unnamedIndex_def)
  have 12: "IndexSchema_Validate (Some noIndexerIndex) = Returns (Some (MissingIndexFunction ''email''))"
    using Validate_first_violation [where ix = noIndexerIndex] by (simp add: noIndexerIndex_def)
  have 13: "IndexSchema_Validate (Some otherIndexerIndex) = Returns (Some (IndexerKind ''email''))"
    using Validate_first_violation [where ix = otherIndexerIndex] by (simp add: otherIndexerIndex_def)
  have 9: "TableSchema_Validate (Some \<lparr>Table_Name = ''users'',
       Indexes = [(''id'', Some usersIdIndex), (''mail'', Some noIndexerIndex)]\<rparr>)
     = Returns (Some (IndexNameMismatch ''mail''))"
    using wfi Validate_first_violation [where t = "\<lparr>Table_Name = ''users'',
       Indexes = [(''id'', Some usersIdIndex), (''mail'', Some noIndexerIndex)]\<rparr>"
       and idx = usersIdIndex and ipre = "[(''id'', Some usersIdIndex)]" and iname = "''mail''"
       and ix = noIndexerIndex and irest = "[]"]
    by (simp add: usersIdIndex_def noIndexerIndex_def)
  have 10: "TableSchema_Validate (Some \<lparr>Table_Name = ''users'',
       Indexes = [(''id'', Some usersIdIndex), (''email'', Some noIndexerIndex)]\<rparr>)
     = Returns (Some (IndexError ''email'' (MissingIndexFunction ''email'')))"
    using wfi 12 Validate_first_violation [where t = "\<lparr>Table_Name = ''users'',
       Indexes = [(''id'', Some usersIdIndex), (''email'', Some noIndexerIndex)]\<rparr>"
       and idx = usersIdIndex and ipre = "[(''id'', Some usersIdIndex)]" and iname = "''email''"
       and ix = noIndexerIndex and irest = "[]" and ierr = "MissingIndexFunction ''email''"]
    by (simp add: usersIdIndex_def noIndexerIndex_def)
  from 1 2 3 4 5 6 7 8 9 10 11 12 13 show ?thesis by blast
qed

section \<open>Properties of the database\<close>

text \<open>
  C6. \<open>Snapshot\<close> returns a database with the schema of \<open>db\<close>, with the root that
  \<open>getRoot\<close> reads from \<open>db\<close> at the call, and not primary; it leaves \<open>db\<close>, every field
  of it, as it was.
\<close>

theorem Snapshot_frame:
  "schema (snd (Snapshot db)) = schema db \<and>
   root (snd (Snapshot db)) = getRoot db \<and>
   getRoot db = root db \<and>
   primary (snd (Snapshot db)) = False \<and>
   fst (Snapshot db) = db"
  by (simp add: Snapshot_def getRoot_def)

lemma append_sep_left:
  assumes "a \<notin> set xs" "a \<notin> set xs'" "xs @ a # ys = xs' @ a # ys'"
  shows "xs = xs' \<and> ys = ys'"
  using assms
proof (induction xs arbitrary: xs')
  case Nil
  then show ?case by (cases xs') auto
next
  case (Cons x xs)
  then show ?case by (cases xs') auto
qed

lemma append_sep_right:
  assumes "a \<notin> set ys" "a \<notin> set ys'" "xs @ a # ys = xs' @ a # ys'"
  shows "xs = xs' \<and> ys = ys'"
proof -
  from assms(3) have "rev (xs @ a # ys) = rev (xs' @ a # ys')" by simp
  then have "rev ys @ a # rev xs = rev ys' @ a # rev xs'" by simp
  with assms(1,2) append_sep_left [of a "rev ys" "rev ys'" "rev xs" "rev xs'"]
  show ?thesis by simp
qed

text \<open>
  C9, as the code has it. \<open>indexPath\<close> joins the two names with a dot and escapes
  nothing, so it is not injective: the table \<open>a.b\<close> with the index \<open>c\<close> and the table
  \<open>a\<close> with the index \<open>b.c\<close> share the path \<open>a.b.c\<close>.
\<close>

theorem indexPath_collision:
  "indexPath ''a.b'' ''c'' = indexPath ''a'' ''b.c'' \<and> ''a.b'' \<noteq> ''a'' \<and> ''c'' \<noteq> ''b.c''"
  by (simp add: indexPath_def)

text \<open>
  C9, amended. \<open>indexPath\<close> is injective on the pairs whose table names contain no
  dot, and on the pairs whose index names contain no dot: if neither table name, or
  neither index name, contains \<open>'.'\<close>, equal paths come from equal table names and
  equal index names.
\<close>

theorem indexPath_injective_without_dot:
  assumes "(CHR ''.'' \<notin> set t1 \<and> CHR ''.'' \<notin> set t2) \<or> (CHR ''.'' \<notin> set i1 \<and> CHR ''.'' \<notin> set i2)"
    and "indexPath t1 i1 = indexPath t2 i2"
  shows "t1 = t2 \<and> i1 = i2"
  using assms append_sep_left [of "CHR ''.''" t1 t2 i1 i2]
    append_sep_right [of "CHR ''.''" i1 i2 t1 t2]
  by (auto simp: indexPath_def)

theorem indexPath_injective_without_dot_witness:
  "CHR ''.'' \<notin> set ''users'' \<and> indexPath ''users'' ''by.email'' = ''users.by.email'' \<and>
   ''users'' = ''users'' \<and> ''by.email'' = ''by.email''"
  using indexPath_injective_without_dot [of "''users''" "''users''" "''by.email''" "''by.email''"]
  by (simp add: indexPath_def)

lemma initIndexes_root:
  "initIndexes tName ixs r k =
     (if k \<in> set (indexPaths tName ixs) then Some iradix_New else r k)"
proof (induction ixs arbitrary: r)
  case Nil
  show ?case by (simp add: indexPaths_def)
next
  case (Cons e ixs)
  obtain iName ix where e: "e = (iName, ix)" by (cases e)
  have "initIndexes tName (e # ixs) r k =
          initIndexes tName ixs (r(indexPath tName iName \<mapsto> iradix_New)) k"
    by (simp add: e iradix_Insert_def)
  also have "\<dots> = (if k \<in> set (indexPaths tName ixs) then Some iradix_New
                    else (r(indexPath tName iName \<mapsto> iradix_New)) k)"
    by (rule Cons.IH)
  finally show ?case by (simp add: e indexPaths_def)
qed

lemma initTables_root:
  "list_all (\<lambda>(name, tbl). tbl \<noteq> None) ts \<Longrightarrow>
     \<exists>r'. initTables ts r = Returns r' \<and>
       (\<forall>k. r' k = (if k \<in> set (tablePaths ts) then Some iradix_New else r k))"
proof (induction ts arbitrary: r)
  case Nil
  show ?case by simp
next
  case (Cons e ts)
  obtain tName tbl where e: "e = (tName, tbl)" by (cases e)
  with Cons.prems obtain t where t: "tbl = Some t" by auto
  from Cons.prems have "list_all (\<lambda>(name, tbl). tbl \<noteq> None) ts" by simp
  from Cons.IH [OF this, of "initIndexes tName (Indexes t) r"]
  obtain r' where r': "initTables ts (initIndexes tName (Indexes t) r) = Returns r'"
    "\<And>k. r' k = (if k \<in> set (tablePaths ts) then Some iradix_New
                   else initIndexes tName (Indexes t) r k)"
    by blast
  have "initTables (e # ts) r = Returns r'"
    by (simp add: e t r')
  moreover have "\<forall>k. r' k = (if k \<in> set (tablePaths (e # ts)) then Some iradix_New else r k)"
    by (auto simp add: r' initIndexes_root e t)
  ultimately show ?case by blast
qed

lemma initTables_returns:
  "initTables ts r = Returns r' \<Longrightarrow>
     (\<forall>k. r' k = (if k \<in> set (tablePaths ts) then Some iradix_New else r k))"
proof (induction ts arbitrary: r)
  case Nil
  then show ?case by simp
next
  case (Cons e ts)
  obtain tName tbl where e: "e = (tName, tbl)" by (cases e)
  show ?case
  proof (cases tbl)
    case None
    with Cons.prems e show ?thesis by simp
  next
    case (Some t)
    with Cons.prems e have "initTables ts (initIndexes tName (Indexes t) r) = Returns r'"
      by simp
    from Cons.IH [OF this] show ?thesis
      by (auto simp add: initIndexes_root e Some)
  qed
qed

lemma wellFormed_no_nil_table:
  "list_all wellFormedTable ts \<Longrightarrow> list_all (\<lambda>(name, tbl). tbl \<noteq> None) ts"
  by (induction ts) (auto simp: wellFormedTable_def split: option.splits)

lemma indexPaths_iff:
  "k \<in> set (indexPaths tName ixs) \<longleftrightarrow> (\<exists>iName ix. (iName, ix) \<in> set ixs \<and> k = indexPath tName iName)"
  by (force simp: indexPaths_def)

lemma tablePaths_iff:
  "k \<in> set (tablePaths ts) \<longleftrightarrow>
     (\<exists>tName t iName ix. (tName, Some t) \<in> set ts \<and> (iName, ix) \<in> set (Indexes t) \<and>
        k = indexPath tName iName)"
proof (induction ts rule: tablePaths.induct)
  case 1
  show ?case by simp
next
  case (2 tName rest)
  then show ?case by auto
next
  case (3 tName t rest)
  show ?case (is "?L \<longleftrightarrow> ?R")
  proof
    assume ?L
    then consider "k \<in> set (indexPaths tName (Indexes t))" | "k \<in> set (tablePaths rest)"
      by auto
    then show ?R
    proof cases
      case 1
      then obtain iName ix where "(iName, ix) \<in> set (Indexes t)" "k = indexPath tName iName"
        by (auto simp: indexPaths_iff)
      then show ?thesis by (intro exI [of _ tName] exI [of _ t] exI [of _ iName] exI [of _ ix]) simp
    next
      case 2
      with 3 obtain tName' t' iName ix where "(tName', Some t') \<in> set rest"
        "(iName, ix) \<in> set (Indexes t')" "k = indexPath tName' iName"
        by blast
      then show ?thesis
        by (intro exI [of _ tName'] exI [of _ t'] exI [of _ iName] exI [of _ ix]) simp
    qed
  next
    assume ?R
    then obtain tName' t' iName ix where h: "(tName', Some t') \<in> set ((tName, Some t) # rest)"
      "(iName, ix) \<in> set (Indexes t')" "k = indexPath tName' iName"
      by blast
    show ?L
    proof (cases "(tName', Some t') = (tName, Some t)")
      case True
      with h have "k \<in> set (indexPaths tName (Indexes t))"
        by (auto simp: indexPaths_iff)
      then show ?thesis by simp
    next
      case False
      with h have "(tName', Some t') \<in> set rest" by auto
      with h 3 have "k \<in> set (tablePaths rest)" by blast
      then show ?thesis by simp
    qed
  qed
qed

lemma NewMemDB_valid:
  assumes "DBSchema_Validate (Some d) = Returns None"
  shows "\<exists>r'. (NewMemDB (Some d) :: ('o MemDB option \<times> memdb_error option) outcome)
            = Returns (Some \<lparr>schema = Some d, root = r', primary = True, writer = False\<rparr>, None) \<and>
          (\<forall>k. r' k = (if k \<in> set (tablePaths (Tables d)) then Some iradix_New else None))"
proof -
  from assms have "list_all wellFormedTable (Tables d)"
    using DBSchema_Validate_ok [of "Some d"] by (simp add: wellFormedSchema_def del: DBSchema_Validate.simps)
  then have "list_all (\<lambda>(name, tbl). tbl \<noteq> None) (Tables d)"
    by (rule wellFormed_no_nil_table)
  from initTables_root [OF this, of "iradix_New :: 'o Tree Tree"]
  obtain r' :: "'o Tree Tree" where r': "initTables (Tables d) iradix_New = Returns r'"
    "\<And>k. r' k = (if k \<in> set (tablePaths (Tables d)) then Some iradix_New else iradix_New k)"
    by blast
  have "NewMemDB (Some d)
          = Returns (Some \<lparr>schema = Some d, root = r', primary = True, writer = False\<rparr>, None)"
    using assms r'(1) by (simp add: NewMemDB_def initialize_def getRoot_def)
  moreover have "\<forall>k. r' k = (if k \<in> set (tablePaths (Tables d)) then Some iradix_New else None)"
    using r'(2) by (simp add: iradix_New_def)
  ultimately show ?thesis by blast
qed

text \<open>
  C4. \<open>NewMemDB\<close> returns a database and a nil error exactly when \<open>Validate\<close> returns
  nil; when \<open>Validate\<close> returns an error, \<open>NewMemDB\<close> returns a nil database with that
  error; and whenever it returns, the database is nil exactly when the error is not.
\<close>

theorem NewMemDB_iff_Validate:
  fixes res :: "'o MemDB option"
  shows
  "((\<exists>db :: 'o MemDB. NewMemDB s = Returns (Some db, None)) \<longleftrightarrow> DBSchema_Validate s = Returns None) \<and>
   (DBSchema_Validate s = Returns (Some err) \<longrightarrow>
      NewMemDB s = Returns (None :: 'o MemDB option, Some (ValidateError err))) \<and>
   (NewMemDB s = Returns (res, e) \<longrightarrow> (res \<noteq> None \<longleftrightarrow> e = None))"
proof (cases "DBSchema_Validate s")
  case Panics
  then show ?thesis by (simp add: NewMemDB_def)
next
  case (Returns v)
  show ?thesis
  proof (cases v)
    case (Some err')
    with Returns show ?thesis by (auto simp: NewMemDB_def)
  next
    case None
    with Returns have ok: "DBSchema_Validate s = Returns None" by simp
    then obtain d where d: "s = Some d" by (cases s) auto
    from NewMemDB_valid [where 'o = 'o] ok d obtain r' :: "'o Tree Tree" where
      "NewMemDB s = Returns (Some \<lparr>schema = Some d, root = r', primary = True, writer = False\<rparr>, None)"
      by blast
    with ok show ?thesis by auto
  qed
qed

lemma usersSchema_valid: "DBSchema_Validate (Some usersSchema) = Returns None"
  by (simp add: usersSchema_def usersTable_def usersIdIndex_def emailIndex_def)

theorem NewMemDB_iff_Validate_witness:
  "DBSchema_Validate (Some usersSchema) = Returns None \<and>
   (\<exists>db :: nat MemDB. NewMemDB (Some usersSchema) = Returns (Some db, None)) \<and>
   DBSchema_Validate (Some \<lparr>Tables = []\<rparr>) = Returns (Some NoTablesDefined) \<and>
   NewMemDB (Some \<lparr>Tables = []\<rparr>)
     = Returns (None :: nat MemDB option, Some (ValidateError NoTablesDefined)) \<and>
   NewMemDB None = Returns (None :: nat MemDB option, Some (ValidateError SchemaIsNil))"
proof -
  have e: "DBSchema_Validate (Some \<lparr>Tables = []\<rparr>) = Returns (Some NoTablesDefined)" by simp
  have n: "DBSchema_Validate None = Returns (Some SchemaIsNil)" by simp
  from NewMemDB_iff_Validate [where 'o = nat and s = "Some usersSchema"] usersSchema_valid
  have 1: "\<exists>db :: nat MemDB. NewMemDB (Some usersSchema) = Returns (Some db, None)" by blast
  from NewMemDB_iff_Validate [where 'o = nat and s = "Some \<lparr>Tables = []\<rparr>" and err = NoTablesDefined] e
  have 2: "NewMemDB (Some \<lparr>Tables = []\<rparr>)
     = Returns (None :: nat MemDB option, Some (ValidateError NoTablesDefined))" by blast
  from NewMemDB_iff_Validate [where 'o = nat and s = None and err = SchemaIsNil] n
  have 3: "NewMemDB None = Returns (None :: nat MemDB option, Some (ValidateError SchemaIsNil))"
    by blast
  from usersSchema_valid e 1 2 3 show ?thesis by blast
qed

text \<open>
  C5. On a schema that \<open>Validate\<close> accepts, \<open>NewMemDB\<close> returns a database in whose
  root every key \<open>"T.I"\<close>, for a table \<open>T\<close> of the schema and an index \<open>I\<close> declared
  for \<open>T\<close>, holds an empty tree, and whose root has no other key. \<open>initialize\<close>, from
  any root, stores an empty tree under each of these keys and leaves every other key,
  the schema and the primary flag as they were.
\<close>

theorem initialize_index_trees:
  "(DBSchema_Validate (Some d) = Returns None \<longrightarrow>
      (\<exists>db :: 'o MemDB. NewMemDB (Some d) = Returns (Some db, None) \<and>
         (\<forall>(tName, tbl) \<in> set (Tables d). \<forall>t. tbl = Some t \<longrightarrow>
            (\<forall>(iName, ix) \<in> set (Indexes t).
               iradix_Get (getRoot db) (indexPath tName iName) = (Some iradix_New, True))) \<and>
         (\<forall>k. k \<in> dom (getRoot db) \<longrightarrow>
            (\<exists>tName t iName ix. (tName, Some t) \<in> set (Tables d) \<and>
               (iName, ix) \<in> set (Indexes t) \<and> k = indexPath tName iName)))) \<and>
   (schema db0 = Some d \<and> initialize db0 = Returns (db1 :: 'o MemDB, e) \<longrightarrow>
      e = None \<and> schema db1 = schema db0 \<and> primary db1 = primary db0 \<and>
      (\<forall>k. getRoot db1 k =
         (if \<exists>tName t iName ix. (tName, Some t) \<in> set (Tables d) \<and>
               (iName, ix) \<in> set (Indexes t) \<and> k = indexPath tName iName
          then Some iradix_New else getRoot db0 k)))"
proof (rule conjI; rule impI)
  assume "DBSchema_Validate (Some d) = Returns None"
  from NewMemDB_valid [OF this, where 'o = 'o] obtain r' :: "'o Tree Tree" where
    n: "NewMemDB (Some d)
          = Returns (Some \<lparr>schema = Some d, root = r', primary = True, writer = False\<rparr>, None)"
    and r: "\<And>k. r' k = (if k \<in> set (tablePaths (Tables d)) then Some iradix_New else None)"
    by blast
  let ?db = "\<lparr>schema = Some d, root = r', primary = True, writer = False\<rparr>"
  have a: "\<forall>(tName, tbl) \<in> set (Tables d). \<forall>t. tbl = Some t \<longrightarrow>
            (\<forall>(iName, ix) \<in> set (Indexes t).
               iradix_Get (getRoot ?db) (indexPath tName iName) = (Some iradix_New, True))"
  proof (intro ballI allI impI, clarify)
    fix tName t iName ix
    assume "(tName, Some t) \<in> set (Tables d)" "(iName, ix) \<in> set (Indexes t)"
    then have "indexPath tName iName \<in> set (tablePaths (Tables d))"
      using tablePaths_iff by blast
    then show "iradix_Get (getRoot ?db) (indexPath tName iName) = (Some iradix_New, True)"
      by (simp add: iradix_Get_def getRoot_def r)
  qed
  have b: "\<forall>k. k \<in> dom (getRoot ?db) \<longrightarrow>
            (\<exists>tName t iName ix. (tName, Some t) \<in> set (Tables d) \<and>
               (iName, ix) \<in> set (Indexes t) \<and> k = indexPath tName iName)"
  proof (intro allI impI)
    fix k assume "k \<in> dom (getRoot ?db)"
    then have "k \<in> set (tablePaths (Tables d))"
      by (auto simp: getRoot_def r split: if_splits)
    then show "\<exists>tName t iName ix. (tName, Some t) \<in> set (Tables d) \<and>
               (iName, ix) \<in> set (Indexes t) \<and> k = indexPath tName iName"
      by (simp only: tablePaths_iff)
  qed
  from n a b show "\<exists>db :: 'o MemDB. NewMemDB (Some d) = Returns (Some db, None) \<and>
         (\<forall>(tName, tbl) \<in> set (Tables d). \<forall>t. tbl = Some t \<longrightarrow>
            (\<forall>(iName, ix) \<in> set (Indexes t).
               iradix_Get (getRoot db) (indexPath tName iName) = (Some iradix_New, True))) \<and>
         (\<forall>k. k \<in> dom (getRoot db) \<longrightarrow>
            (\<exists>tName t iName ix. (tName, Some t) \<in> set (Tables d) \<and>
               (iName, ix) \<in> set (Indexes t) \<and> k = indexPath tName iName))"
    by blast
next
  assume h: "schema db0 = Some d \<and> initialize db0 = Returns (db1, e)"
  then obtain r' where i: "initTables (Tables d) (getRoot db0) = Returns r'"
    and d1: "db1 = db0\<lparr>root := r'\<rparr>" and e: "e = None"
    by (auto simp: initialize_def split: outcome.splits)
  from initTables_returns [OF i]
  have "\<forall>k. r' k = (if k \<in> set (tablePaths (Tables d)) then Some iradix_New else getRoot db0 k)" .
  then have "\<forall>k. getRoot db1 k =
         (if \<exists>tName t iName ix. (tName, Some t) \<in> set (Tables d) \<and>
               (iName, ix) \<in> set (Indexes t) \<and> k = indexPath tName iName
          then Some iradix_New else getRoot db0 k)"
    by (simp only: tablePaths_iff d1 getRoot_def) simp
  with d1 e show "e = None \<and> schema db1 = schema db0 \<and> primary db1 = primary db0 \<and>
      (\<forall>k. getRoot db1 k =
         (if \<exists>tName t iName ix. (tName, Some t) \<in> set (Tables d) \<and>
               (iName, ix) \<in> set (Indexes t) \<and> k = indexPath tName iName
          then Some iradix_New else getRoot db0 k))"
    by simp
qed

theorem initialize_index_trees_witness:
  "DBSchema_Validate (Some usersSchema) = Returns None \<and>
   (\<exists>db :: nat MemDB. NewMemDB (Some usersSchema) = Returns (Some db, None) \<and>
      iradix_Get (getRoot db) ''users.id'' = (Some iradix_New, True) \<and>
      iradix_Get (getRoot db) ''users.email'' = (Some iradix_New, True) \<and>
      iradix_Get (getRoot db) ''users'' = (None, False)) \<and>
   initialize \<lparr>schema = Some usersSchema, root = [''audit.id'' \<mapsto> [''k'' \<mapsto> 7]],
               primary = True, writer = False\<rparr>
     = Returns (\<lparr>schema = Some usersSchema,
                 root = [''audit.id'' \<mapsto> [''k'' \<mapsto> 7], ''users.email'' \<mapsto> iradix_New,
                         ''users.id'' \<mapsto> iradix_New],
                 primary = True, writer = False\<rparr> :: nat MemDB, None) \<and>
   getRoot \<lparr>schema = Some usersSchema,
            root = [''audit.id'' \<mapsto> [''k'' \<mapsto> 7], ''users.email'' \<mapsto> iradix_New,
                    ''users.id'' \<mapsto> iradix_New],
            primary = True, writer = False\<rparr> ''audit.id'' = Some [''k'' \<mapsto> (7 :: nat)]"
proof -
  let ?db0 = "\<lparr>schema = Some usersSchema, root = [''audit.id'' \<mapsto> [''k'' \<mapsto> 7]],
               primary = True, writer = False\<rparr> :: nat MemDB"
  let ?db1 = "\<lparr>schema = Some usersSchema,
                 root = [''audit.id'' \<mapsto> [''k'' \<mapsto> 7], ''users.email'' \<mapsto> iradix_New,
                         ''users.id'' \<mapsto> iradix_New],
                 primary = True, writer = False\<rparr> :: nat MemDB"
  have v: "DBSchema_Validate (Some usersSchema) = Returns None"
    by (simp add: usersSchema_def usersTable_def usersIdIndex_def emailIndex_def)
  have i: "schema ?db0 = Some usersSchema \<and> initialize ?db0 = Returns (?db1, None)"
    by (simp add: initialize_def getRoot_def usersSchema_def usersTable_def iradix_Insert_def
        indexPath_def)
  have m1: "(''users'', Some usersTable) \<in> set (Tables usersSchema)"
    by (simp add: usersSchema_def)
  have m2: "(''id'', Some usersIdIndex) \<in> set (Indexes usersTable)"
    "(''email'', Some emailIndex) \<in> set (Indexes usersTable)"
    by (simp_all add: usersTable_def)
  from initialize_index_trees [where 'o = nat and d = usersSchema and ?db0.0 = ?db0
      and ?db1.0 = ?db1 and e = None] v i
  obtain db :: "nat MemDB" where n: "NewMemDB (Some usersSchema) = Returns (Some db, None)"
    and a: "\<forall>(tName, tbl) \<in> set (Tables usersSchema). \<forall>t. tbl = Some t \<longrightarrow>
            (\<forall>(iName, ix) \<in> set (Indexes t).
               iradix_Get (getRoot db) (indexPath tName iName) = (Some iradix_New, True))"
    and b: "\<forall>k. k \<in> dom (getRoot db) \<longrightarrow>
            (\<exists>tName t iName ix. (tName, Some t) \<in> set (Tables usersSchema) \<and>
               (iName, ix) \<in> set (Indexes t) \<and> k = indexPath tName iName)"
    and c: "\<forall>k. getRoot ?db1 k =
         (if \<exists>tName t iName ix. (tName, Some t) \<in> set (Tables usersSchema) \<and>
               (iName, ix) \<in> set (Indexes t) \<and> k = indexPath tName iName
          then Some iradix_New else getRoot ?db0 k)"
    by blast
  from a m1 m2 have g1: "iradix_Get (getRoot db) (indexPath ''users'' ''id'') = (Some iradix_New, True)"
    and g2: "iradix_Get (getRoot db) (indexPath ''users'' ''email'') = (Some iradix_New, True)"
    by blast+
  have "''users'' \<notin> dom (getRoot db)"
  proof
    assume "''users'' \<in> dom (getRoot db)"
    with b obtain tName iName where "''users'' = indexPath tName iName"
      "tName = ''users''"
      by (auto simp: usersSchema_def)
    then show False by (simp add: indexPath_def)
  qed
  then have g3: "iradix_Get (getRoot db) ''users'' = (None, False)"
    by (auto simp: iradix_Get_def)
  have g4: "getRoot ?db1 ''audit.id'' = Some [''k'' \<mapsto> (7 :: nat)]"
    by (simp add: getRoot_def)
  from v n g1 g2 g3 i g4 show ?thesis
    by (auto simp: indexPath_def)
qed

section \<open>Properties of the filter iterator\<close>

lemma Next_nil:
  assumes "fst (iter_Next f (iter_state f)) = None"
  shows "FilterIterator_Next f = Some (None, f\<lparr>iter_state := snd (iter_Next f (iter_state f))\<rparr>)"
proof -
  obtain s' where "iter_Next f (iter_state f) = (None, s')"
    using assms by (cases "iter_Next f (iter_state f)") simp
  then show ?thesis
    by (subst FilterIterator_Next.simps) simp
qed

lemma Next_accept:
  assumes "fst (iter_Next f (iter_state f)) = Some v"
    and "\<not> fst (filter_fn f (filter_state f) (Some v))"
  shows "FilterIterator_Next f =
           Some (Some v, f\<lparr>filter_state := snd (filter_fn f (filter_state f) (Some v)),
                            iter_state := snd (iter_Next f (iter_state f))\<rparr>)"
proof -
  obtain s' where 1: "iter_Next f (iter_state f) = (Some v, s')"
    using assms(1) by (cases "iter_Next f (iter_state f)") simp
  obtain c' where 2: "filter_fn f (filter_state f) (Some v) = (False, c')"
    using assms(2) by (cases "filter_fn f (filter_state f) (Some v)") simp
  from 1 2 show ?thesis
    by (subst FilterIterator_Next.simps) simp
qed

lemma Next_reject:
  assumes "fst (iter_Next f (iter_state f)) = Some v"
    and "fst (filter_fn f (filter_state f) (Some v))"
  shows "FilterIterator_Next f =
           FilterIterator_Next (f\<lparr>filter_state := snd (filter_fn f (filter_state f) (Some v)),
                                   iter_state := snd (iter_Next f (iter_state f))\<rparr>)"
proof -
  obtain s' where 1: "iter_Next f (iter_state f) = (Some v, s')"
    using assms(1) by (cases "iter_Next f (iter_state f)") simp
  obtain c' where 2: "filter_fn f (filter_state f) (Some v) = (True, c')"
    using assms(2) by (cases "filter_fn f (filter_state f) (Some v)") simp
  have "FilterIterator_Next f = FilterIterator_Next (f\<lparr>filter_state := c', iter_state := s'\<rparr>)"
    by (rule trans [OF FilterIterator_Next.simps]) (simp add: 1 2)
  with 1 2 show ?thesis by simp
qed

lemma NewFilterIterator_nil:
  assumes "fst (next s) = None"
  shows "FilterIterator_Next (NewFilterIterator next s flt c) =
           Some (None, NewFilterIterator next (snd (next s)) flt c)"
  using Next_nil [of "NewFilterIterator next s flt c"] assms
  by (simp add: NewFilterIterator_def)

lemma NewFilterIterator_accept:
  assumes "fst (next s) = Some v" and "\<not> fst (flt c (Some v))"
  shows "FilterIterator_Next (NewFilterIterator next s flt c) =
           Some (Some v, NewFilterIterator next (snd (next s)) flt (snd (flt c (Some v))))"
  using Next_accept [of "NewFilterIterator next s flt c" v] assms
  by (simp add: NewFilterIterator_def)

lemma NewFilterIterator_reject:
  assumes "fst (next s) = Some v" and "fst (flt c (Some v))"
  shows "FilterIterator_Next (NewFilterIterator next s flt c) =
           FilterIterator_Next (NewFilterIterator next (snd (next s)) flt (snd (flt c (Some v))))"
  using Next_reject [of "NewFilterIterator next s flt c" v] assms
  by (simp add: NewFilterIterator_def)

lemma pureFilter_apply: "fst (pureFilter p c v) = p v" "snd (pureFilter p c v) = c"
  by (simp_all add: pureFilter_def)

lemma pulled_Suc: "pulled next (Suc k) s = snd (next (pulled next k s))"
  by (induction k arbitrary: s) simp_all

lemma Next_skip_pure:
  assumes "\<forall>j<k. \<exists>v. fst (next (pulled next j s)) = Some v \<and> p (Some v)"
  shows "FilterIterator_Next (NewFilterIterator next s (pureFilter p) ()) =
         FilterIterator_Next (NewFilterIterator next (pulled next k s) (pureFilter p) ())"
  using assms
proof (induction k arbitrary: s)
  case 0
  show ?case by simp
next
  case (Suc k)
  from Suc.prems have "\<exists>v. fst (next (pulled next 0 s)) = Some v \<and> p (Some v)" by blast
  then obtain v where v: "fst (next s) = Some v" "p (Some v)" by auto
  have step: "FilterIterator_Next (NewFilterIterator next s (pureFilter p) ()) =
              FilterIterator_Next (NewFilterIterator next (snd (next s)) (pureFilter p) ())"
    using v NewFilterIterator_reject [of "next" s v "pureFilter p" "()"]
    by (simp add: pureFilter_apply)
  have "\<forall>j<k. \<exists>v. fst (next (pulled next j (snd (next s)))) = Some v \<and> p (Some v)"
  proof (intro allI impI)
    fix j assume "j < k"
    then have "Suc j < Suc k" by simp
    with Suc.prems have "\<exists>v. fst (next (pulled next (Suc j) s)) = Some v \<and> p (Some v)" by blast
    then show "\<exists>v. fst (next (pulled next j (snd (next s)))) = Some v \<and> p (Some v)" by simp
  qed
  from Suc.IH [OF this] step show ?case by simp
qed

lemma Next_first_unrejected:
  assumes "\<forall>j<k. \<exists>v. fst (next (pulled next j s)) = Some v \<and> p (Some v)"
    and "fst (next (pulled next k s)) = r" and "r = None \<or> \<not> p r"
  shows "FilterIterator_Next (NewFilterIterator next s (pureFilter p) ()) =
         Some (r, NewFilterIterator next (pulled next (Suc k) s) (pureFilter p) ())"
proof -
  let ?s = "pulled next k s"
  have "FilterIterator_Next (NewFilterIterator next ?s (pureFilter p) ())
          = Some (r, NewFilterIterator next (pulled next (Suc k) s) (pureFilter p) ())"
  proof (cases r)
    case None
    with assms(2) NewFilterIterator_nil [of "next" ?s "pureFilter p" "()"] show ?thesis
      by (simp add: pulled_Suc del: pulled.simps)
  next
    case (Some v)
    with assms(2,3) NewFilterIterator_accept [of "next" ?s v "pureFilter p" "()"] show ?thesis
      by (simp add: pureFilter_apply pulled_Suc del: pulled.simps)
  qed
  with Next_skip_pure [OF assms(1)] show ?thesis by simp
qed

lemma Next_replay:
  "FilterIterator_Next (NewFilterIterator replayNext ys (pureFilter p) ()) =
     Some (case dropWhile (\<lambda>v. v \<noteq> None \<and> p v) ys of
             [] \<Rightarrow> (None, NewFilterIterator replayNext [] (pureFilter p) ())
           | v # rest \<Rightarrow> (v, NewFilterIterator replayNext rest (pureFilter p) ()))"
proof (induction ys)
  case Nil
  show ?case using NewFilterIterator_nil [of replayNext "[]" "pureFilter p" "()"]
    by simp
next
  case (Cons y ys)
  show ?case
  proof (cases y)
    case None
    with NewFilterIterator_nil [of replayNext "y # ys" "pureFilter p" "()"] show ?thesis
      by simp
  next
    case (Some v)
    show ?thesis
    proof (cases "p (Some v)")
      case True
      with Some NewFilterIterator_reject [of replayNext "y # ys" v "pureFilter p" "()"] Cons.IH
      show ?thesis by (simp add: pureFilter_apply)
    next
      case False
      with Some NewFilterIterator_accept [of replayNext "y # ys" v "pureFilter p" "()"]
      show ?thesis by (simp add: pureFilter_apply)
    qed
  qed
qed

lemma filter_dropWhile_Nil:
  "dropWhile P xs = [] \<Longrightarrow> filter (\<lambda>x. \<not> P x) xs = []"
  by (induction xs) (auto split: if_splits)

lemma filter_dropWhile_Cons:
  "dropWhile P xs = v # rest \<Longrightarrow> filter (\<lambda>x. \<not> P x) xs = v # filter (\<lambda>x. \<not> P x) rest"
  by (induction xs) (auto split: if_splits)

lemma dropWhile_map_Some:
  "dropWhile (\<lambda>v. v \<noteq> None \<and> p v) (map Some xs) = map Some (dropWhile (\<lambda>x. p (Some x)) xs)"
  by (induction xs) auto

lemma Next_slice:
  "FilterIterator_Next (NewFilterIterator replayNext (map Some xs) (pureFilter p) ()) =
     Some (case dropWhile (\<lambda>x. p (Some x)) xs of
             [] \<Rightarrow> (None, NewFilterIterator replayNext [] (pureFilter p) ())
           | v # rest \<Rightarrow> (Some v, NewFilterIterator replayNext (map Some rest) (pureFilter p) ()))"
proof (cases "dropWhile (\<lambda>x. p (Some x)) xs")
  case Nil
  then show ?thesis by (simp only: Next_replay dropWhile_map_Some list.simps)
next
  case (Cons v rest)
  then show ?thesis by (simp only: Next_replay dropWhile_map_Some list.simps)
qed

lemma Next_times_exhausted:
  "map_option fst (Next_times n (NewFilterIterator replayNext [] (pureFilter p) ())) = Some (replicate n None)"
proof (induction n)
  case 0
  show ?case by simp
next
  case (Suc n)
  then show ?case
    by (auto simp: Next_replay split: option.splits)
qed

lemma Next_times_slice:
  "map_option fst (Next_times n (NewFilterIterator replayNext (map Some xs) (pureFilter p) ())) =
     Some (map Some (take n (filter (\<lambda>x. \<not> p (Some x)) xs)) @
           replicate (n - length (filter (\<lambda>x. \<not> p (Some x)) xs)) None)"
proof (induction n arbitrary: xs)
  case 0
  show ?case by simp
next
  case (Suc n)
  show ?case
  proof (cases "dropWhile (\<lambda>x. p (Some x)) xs")
    case Nil
    then have f: "filter (\<lambda>x. \<not> p (Some x)) xs = []" by (rule filter_dropWhile_Nil)
    from Nil have "FilterIterator_Next (NewFilterIterator replayNext (map Some xs) (pureFilter p) ())
        = Some (None, NewFilterIterator replayNext [] (pureFilter p) ())"
      by (simp only: Next_slice list.simps)
    with Next_times_exhausted [of n p] f show ?thesis
      by (auto split: option.splits)
  next
    case (Cons v rest)
    then have f: "filter (\<lambda>x. \<not> p (Some x)) xs = v # filter (\<lambda>x. \<not> p (Some x)) rest"
      by (rule filter_dropWhile_Cons)
    from Cons have "FilterIterator_Next (NewFilterIterator replayNext (map Some xs) (pureFilter p) ())
        = Some (Some v, NewFilterIterator replayNext (map Some rest) (pureFilter p) ())"
      by (simp only: Next_slice list.simps)
    with Suc.IH [of rest] f show ?thesis
      by (auto split: option.splits)
  qed
qed

lemma loggingFilter_apply:
  "fst (loggingFilter p c v) = p v" "snd (loggingFilter p c v) = c @ [v]"
  by (simp_all add: loggingFilter_def)

lemma Next_skip_logging:
  assumes "\<forall>j<k. \<exists>v. fst (next (pulled next j s)) = Some v \<and> p (Some v)"
  shows "FilterIterator_Next (NewFilterIterator next s (loggingFilter p) calls) =
         FilterIterator_Next (NewFilterIterator next (pulled next k s) (loggingFilter p)
           (calls @ map (\<lambda>j. fst (next (pulled next j s))) [0..<k]))"
  using assms
proof (induction k arbitrary: s calls)
  case 0
  show ?case by simp
next
  case (Suc k)
  from Suc.prems have "\<exists>v. fst (next (pulled next 0 s)) = Some v \<and> p (Some v)" by blast
  then obtain v where v: "fst (next s) = Some v" "p (Some v)" by auto
  let ?s = "snd (next s)"
  have step: "FilterIterator_Next (NewFilterIterator next s (loggingFilter p) calls) =
              FilterIterator_Next (NewFilterIterator next ?s (loggingFilter p) (calls @ [Some v]))"
    using v NewFilterIterator_reject [of "next" s v "loggingFilter p" calls]
    by (simp add: loggingFilter_apply)
  have "\<forall>j<k. \<exists>v. fst (next (pulled next j ?s)) = Some v \<and> p (Some v)"
  proof (intro allI impI)
    fix j assume "j < k"
    then have "Suc j < Suc k" by simp
    with Suc.prems have "\<exists>v. fst (next (pulled next (Suc j) s)) = Some v \<and> p (Some v)" by blast
    then show "\<exists>v. fst (next (pulled next j ?s)) = Some v \<and> p (Some v)" by simp
  qed
  from Suc.IH [OF this, of "calls @ [Some v]"]
  have "FilterIterator_Next (NewFilterIterator next ?s (loggingFilter p) (calls @ [Some v])) =
        FilterIterator_Next (NewFilterIterator next (pulled next k ?s) (loggingFilter p)
          ((calls @ [Some v]) @ map (\<lambda>j. fst (next (pulled next j ?s))) [0..<k]))" .
  moreover have "map (\<lambda>j. fst (next (pulled next j s))) [0..<Suc k] =
                 Some v # map (\<lambda>j. fst (next (pulled next j ?s))) [0..<k]"
    using v(1) by (simp add: map_upt_Suc del: upt_Suc)
  ultimately show ?case using step by (simp del: upt_Suc)
qed

lemma Next_nil_after_rejected:
  assumes "\<forall>j<k. \<exists>v. fst (next (pulled next j s)) = Some v \<and> p (Some v)"
    and "fst (next (pulled next k s)) = None"
  shows "FilterIterator_Next (NewFilterIterator next s (loggingFilter p) calls) =
         Some (None, NewFilterIterator next (pulled next (Suc k) s) (loggingFilter p)
           (calls @ map (\<lambda>j. fst (next (pulled next j s))) [0..<k]))"
  using Next_skip_logging [OF assms(1), of calls]
    NewFilterIterator_nil [of "next" "pulled next k s" "loggingFilter p"
      "calls @ map (\<lambda>j. fst (next (pulled next j s))) [0..<k]"] assms(2)
  by (simp add: pulled_Suc del: pulled.simps)

lemma Next_logging_calls:
  assumes "FilterIterator_Next f = Some y"
  shows "filter_fn f = loggingFilter p \<longrightarrow>
           filter_fn (snd y) = loggingFilter p \<and>
           (\<exists>new. filter_state (snd y) = filter_state f @ new \<and> None \<notin> set new)"
  using assms
proof (induction rule: FilterIterator_Next.raw_induct [rotated 1, consumes 1, case_names step])
  case (step rec f y)
  obtain val s' where n: "iter_Next f (iter_state f) = (val, s')"
    by (cases "iter_Next f (iter_state f)")
  show ?case
  proof (cases val)
    case None
    with step(2) n have "y = (None, f\<lparr>iter_state := s'\<rparr>)" by simp
    then show ?thesis by simp
  next
    case (Some v)
    show ?thesis
    proof
      assume lf: "filter_fn f = loggingFilter p"
      let ?f' = "f\<lparr>filter_state := filter_state f @ [Some v], iter_state := s'\<rparr>"
      show "filter_fn (snd y) = loggingFilter p \<and>
            (\<exists>new. filter_state (snd y) = filter_state f @ new \<and> None \<notin> set new)"
      proof (cases "p (Some v)")
        case False
        with step(2) n Some lf have "y = (Some v, ?f')"
          by (simp add: loggingFilter_def)
        with lf show ?thesis by simp
      next
        case True
        with step(2) n Some lf have "rec ?f' = Some y"
          by (simp add: loggingFilter_def)
        from step(1) [OF this] lf obtain new where "filter_fn (snd y) = loggingFilter p"
          "filter_state (snd y) = (filter_state f @ [Some v]) @ new" "None \<notin> set new"
          by auto
        then have "filter_state (snd y) = filter_state f @ (Some v # new) \<and> None \<notin> set (Some v # new)"
          by simp
        with \<open>filter_fn (snd y) = loggingFilter p\<close> show ?thesis by blast
      qed
    qed
  qed
qed

text \<open>
  C3. For every wrapped iterator and predicate: when the first \<open>k\<close> values pulled are
  not nil and the predicate is true of each, and the next value pulled is nil or one
  the predicate is false of, \<open>Next\<close> returns that value, having pulled \<open>k + 1\<close> times. Over
  a sequence of values, \<open>Next\<close> returns the first value the predicate is false of, and
  nil when there is none; \<open>n\<close> successive calls return the values the predicate is
  false of, in their order, and nil from then on.
\<close>

theorem Next_first_unfiltered:
  "((\<forall>j<k. \<exists>v. fst (next (pulled next j s)) = Some v \<and> p (Some v)) \<and>
      fst (next (pulled next k s)) = r \<and> (r = None \<or> \<not> p r) \<longrightarrow>
      FilterIterator_Next (NewFilterIterator next s (pureFilter p) ()) =
        Some (r, NewFilterIterator next (pulled next (Suc k) s) (pureFilter p) ())) \<and>
   FilterIterator_Next (NewFilterIterator replayNext (map Some xs) (pureFilter p) ()) =
     Some (case dropWhile (\<lambda>x. p (Some x)) xs of
             [] \<Rightarrow> (None, NewFilterIterator replayNext [] (pureFilter p) ())
           | v # rest \<Rightarrow> (Some v, NewFilterIterator replayNext (map Some rest) (pureFilter p) ())) \<and>
   map_option fst (Next_times n (NewFilterIterator replayNext (map Some xs) (pureFilter p) ())) =
     Some (map Some (take n (filter (\<lambda>x. \<not> p (Some x)) xs)) @
           replicate (n - length (filter (\<lambda>x. \<not> p (Some x)) xs)) None)"
  using Next_first_unrejected [of k "next" s p r] Next_slice [of xs p] Next_times_slice [of n xs p]
  by blast

theorem Next_first_unfiltered_witness:
  "FilterIterator_Next (NewFilterIterator replayNext [Some 2, Some 4, Some 5, Some 6] (pureFilter rejectEven) ())
     = Some (Some 5, NewFilterIterator replayNext [Some 6] (pureFilter rejectEven) ()) \<and>
   FilterIterator_Next (NewFilterIterator replayNext (map Some [1, 2, 3, 4]) (pureFilter rejectEven) ())
     = Some (Some 1, NewFilterIterator replayNext (map Some [2, 3, 4]) (pureFilter rejectEven) ()) \<and>
   map_option fst (Next_times 4 (NewFilterIterator replayNext (map Some [1, 2, 3, 4]) (pureFilter rejectEven) ()))
     = Some [Some 1, Some 3, None, None]"
proof -
  let ?s = "[Some 2, Some 4, Some 5, Some (6 :: int)]"
  let ?xs = "[1, 2, 3, 4 :: int]"
  note T = Next_first_unfiltered [where ?next = replayNext and s = ?s and k = "Suc (Suc 0)"
        and p = rejectEven and r = "Some 5" and xs = ?xs and n = 4]
  have h: "(\<forall>j<Suc (Suc 0). \<exists>v. fst (replayNext (pulled replayNext j ?s)) = Some v \<and> rejectEven (Some v)) \<and>
      fst (replayNext (pulled replayNext (Suc (Suc 0)) ?s)) = Some 5 \<and>
      (Some (5 :: int) = None \<or> \<not> rejectEven (Some 5))"
    by (simp add: All_less_Suc rejectEven_def)
  then have "FilterIterator_Next (NewFilterIterator replayNext ?s (pureFilter rejectEven) ())
     = Some (Some 5, NewFilterIterator replayNext (pulled replayNext (Suc (Suc (Suc 0))) ?s)
         (pureFilter rejectEven) ())"
    by (rule T [THEN conjunct1, THEN mp])
  moreover have "pulled replayNext (Suc (Suc (Suc 0))) ?s = [Some 6]" by simp
  ultimately have 1: "FilterIterator_Next (NewFilterIterator replayNext ?s (pureFilter rejectEven) ())
     = Some (Some 5, NewFilterIterator replayNext [Some 6] (pureFilter rejectEven) ())"
    by simp
  from T have "FilterIterator_Next (NewFilterIterator replayNext (map Some ?xs) (pureFilter rejectEven) ()) =
     Some (case dropWhile (\<lambda>x. rejectEven (Some x)) ?xs of
             [] \<Rightarrow> (None, NewFilterIterator replayNext [] (pureFilter rejectEven) ())
           | v # rest \<Rightarrow> (Some v, NewFilterIterator replayNext (map Some rest) (pureFilter rejectEven) ()))"
    by (rule conjunct1 [OF conjunct2])
  moreover have "dropWhile (\<lambda>x. rejectEven (Some x)) ?xs = ?xs"
    by (simp add: rejectEven_def)
  ultimately have 2: "FilterIterator_Next (NewFilterIterator replayNext (map Some ?xs) (pureFilter rejectEven) ())
     = Some (Some 1, NewFilterIterator replayNext (map Some [2, 3, 4]) (pureFilter rejectEven) ())"
    by (simp only: list.case)
  from T have "map_option fst (Next_times 4 (NewFilterIterator replayNext (map Some ?xs) (pureFilter rejectEven) ())) =
     Some (map Some (take 4 (filter (\<lambda>x. \<not> rejectEven (Some x)) ?xs)) @
           replicate (4 - length (filter (\<lambda>x. \<not> rejectEven (Some x)) ?xs)) None)"
    by (rule conjunct2 [OF conjunct2])
  moreover have "filter (\<lambda>x. \<not> rejectEven (Some x)) ?xs = [1, 3]"
    by (simp add: rejectEven_def)
  moreover have "map Some (take 4 [1, 3 :: int]) @ replicate (4 - length [1, 3 :: int]) None
      = [Some 1, Some 3, None, None]"
    by (simp add: numeral_eq_Suc)
  ultimately have 3: "map_option fst (Next_times 4 (NewFilterIterator replayNext (map Some ?xs) (pureFilter rejectEven) ()))
     = Some [Some 1, Some 3, None, None]"
    by (simp only:)
  show ?thesis by (rule conjI [OF 1 conjI [OF 2 3]])
qed

text \<open>
  C10. \<open>Next\<close> never calls the filter on nil. When the wrapped iterator returns nil,
  \<open>Next\<close> returns nil at once and leaves the filter as it was; when it returns nil after
  \<open>k\<close> rejected values, a filter that logs its calls has logged these \<open>k\<close> values and
  nothing else; and whenever \<open>Next\<close> returns, the calls it has added to the log are all
  on values that are not nil.
\<close>

theorem Next_never_filters_nil:
  "(fst (iter_Next f (iter_state f)) = None \<longrightarrow>
      FilterIterator_Next f = Some (None, f\<lparr>iter_state := snd (iter_Next f (iter_state f))\<rparr>)) \<and>
   ((\<forall>j<k. \<exists>v. fst (next (pulled next j s)) = Some v \<and> p (Some v)) \<and>
      fst (next (pulled next k s)) = None \<longrightarrow>
      FilterIterator_Next (NewFilterIterator next s (loggingFilter p) calls) =
        Some (None, NewFilterIterator next (pulled next (Suc k) s) (loggingFilter p)
          (calls @ map (\<lambda>j. fst (next (pulled next j s))) [0..<k]))) \<and>
   (FilterIterator_Next (NewFilterIterator next s (loggingFilter p) calls) = Some (r, f') \<longrightarrow>
      (\<exists>new. filter_state f' = calls @ new \<and> None \<notin> set new))"
proof (intro conjI impI)
  assume "fst (iter_Next f (iter_state f)) = None"
  then show "FilterIterator_Next f = Some (None, f\<lparr>iter_state := snd (iter_Next f (iter_state f))\<rparr>)"
    by (rule Next_nil)
next
  assume a: "(\<forall>j<k. \<exists>v. fst (next (pulled next j s)) = Some v \<and> p (Some v)) \<and>
      fst (next (pulled next k s)) = None"
  show "FilterIterator_Next (NewFilterIterator next s (loggingFilter p) calls) =
        Some (None, NewFilterIterator next (pulled next (Suc k) s) (loggingFilter p)
          (calls @ map (\<lambda>j. fst (next (pulled next j s))) [0..<k]))"
    by (rule Next_nil_after_rejected [OF conjunct1 [OF a] conjunct2 [OF a]])
next
  assume "FilterIterator_Next (NewFilterIterator next s (loggingFilter p) calls) = Some (r, f')"
  from Next_logging_calls [OF this, of p]
  show "\<exists>new. filter_state f' = calls @ new \<and> None \<notin> set new"
    by (simp add: NewFilterIterator_def)
qed

theorem Next_never_filters_nil_witness:
  "FilterIterator_Next (NewFilterIterator replayNext [None, Some 1] (loggingFilter rejectEven) [])
     = Some (None, NewFilterIterator replayNext [Some 1] (loggingFilter rejectEven) []) \<and>
   FilterIterator_Next (NewFilterIterator replayNext [Some 2, Some 4, None, Some 5] (loggingFilter rejectEven) [])
     = Some (None, NewFilterIterator replayNext [Some 5] (loggingFilter rejectEven) [Some 2, Some 4]) \<and>
   (\<exists>new. [Some 2, Some 4] = [] @ new \<and> None \<notin> set new)"
proof -
  let ?s = "[Some 2, Some 4, None, Some (5 :: int)]"
  let ?f = "NewFilterIterator replayNext [None, Some (1 :: int)] (loggingFilter rejectEven) []"
  let ?f' = "NewFilterIterator replayNext [Some (5 :: int)] (loggingFilter rejectEven) [Some 2, Some 4]"
  note T = Next_never_filters_nil [where f = ?f and ?next = replayNext and s = ?s
      and k = "Suc (Suc 0)" and p = rejectEven and calls = "[]" and r = None and f' = ?f']
  have "fst (iter_Next ?f (iter_state ?f)) = None"
    by (simp add: NewFilterIterator_def)
  then have "FilterIterator_Next ?f = Some (None, ?f\<lparr>iter_state := snd (iter_Next ?f (iter_state ?f))\<rparr>)"
    by (rule T [THEN conjunct1, THEN mp])
  moreover have "?f\<lparr>iter_state := snd (iter_Next ?f (iter_state ?f))\<rparr>
      = NewFilterIterator replayNext [Some 1] (loggingFilter rejectEven) []"
    by (simp add: NewFilterIterator_def)
  ultimately have 1: "FilterIterator_Next ?f
     = Some (None, NewFilterIterator replayNext [Some 1] (loggingFilter rejectEven) [])"
    by simp
  have h: "(\<forall>j<Suc (Suc 0). \<exists>v. fst (replayNext (pulled replayNext j ?s)) = Some v \<and> rejectEven (Some v)) \<and>
      fst (replayNext (pulled replayNext (Suc (Suc 0)) ?s)) = None"
    by (simp add: All_less_Suc rejectEven_def)
  then have "FilterIterator_Next (NewFilterIterator replayNext ?s (loggingFilter rejectEven) []) =
        Some (None, NewFilterIterator replayNext (pulled replayNext (Suc (Suc (Suc 0))) ?s)
          (loggingFilter rejectEven)
          ([] @ map (\<lambda>j. fst (replayNext (pulled replayNext j ?s))) [0..<Suc (Suc 0)]))"
    by (rule T [THEN conjunct2, THEN conjunct1, THEN mp])
  moreover have "pulled replayNext (Suc (Suc (Suc 0))) ?s = [Some 5]" by simp
  moreover have "[] @ map (\<lambda>j. fst (replayNext (pulled replayNext j ?s))) [0..<Suc (Suc 0)]
      = [Some 2, Some 4]"
    by (simp add: upt_rec)
  ultimately have 2: "FilterIterator_Next (NewFilterIterator replayNext ?s (loggingFilter rejectEven) [])
     = Some (None, ?f')"
    by simp
  then have "\<exists>new. filter_state ?f' = [] @ new \<and> None \<notin> set new"
    by (rule T [THEN conjunct2, THEN conjunct2, THEN mp])
  then have 3: "\<exists>new. [Some 2, Some 4] = [] @ new \<and> None \<notin> set new"
    by (simp add: NewFilterIterator_def)
  show ?thesis by (rule conjI [OF 1 conjI [OF 2 3]])
qed

end
